theory Spec2Isabelle
  imports Main "HOL-Library.Word"
begin

unbundle bit_operations_syntax

section \<open>Opening the index file: \<open>GDALMRFDataset::IdxFP\<close>\<close>

text \<open>
  The file system is the environment of \<open>IdxFP\<close>.  Its answers are given by two oracles,
  indexed by the number of the call: whether the k-th \<open>VSIFOpenL\<close> returns a handle and
  whether the k-th \<open>CheckFileSize\<close> returns true.  Every call of the function into the
  environment is appended to the event trace of the dataset, so that the number of
  size checks and the sleeps between them can be read off the trace.
\<close>

datatype GDALAccess = GA_ReadOnly | GA_Update

datatype GDALRWFlag = GF_Read | GF_Write

datatype open_mode = Mode_rb | Mode_rpb | Mode_wpb | Mode_wb

datatype idx_error =
    Err_CantExtendCacheIndex
  | Err_TimeoutClonedIndex
  | Err_CantOpenIndex
  | Err_CantCreateCacheIndex
  | Err_CantReopenCacheIndex

datatype io_event =
    Ev_Open open_mode bool
  | Ev_Mkdir
  | Ev_CheckFileSize int GDALAccess bool
  | Ev_Sleep nat
  | Ev_Close
  | Ev_Error idx_error

record idx_env =
  open_result :: "nat \<Rightarrow> bool"
  check_result :: "nat \<Rightarrow> bool"

text \<open>The fields of the dataset that several of the modelled functions read: the size in
  bytes of the index of one generation, the clone flag, and the version state.\<close>

record mrf_base =
  idxSize :: int
  clonedSource :: bool
  hasVersions :: bool
  verCount :: int

record idx_ds = mrf_base +
  ifp_FP :: "open_mode option"
  ifp_acc :: GDALRWFlag
  eAccess :: GDALAccess
  source_empty :: bool
  bCrystalized :: bool
  opens :: nat
  checks :: nat
  events :: "io_event list"

definition emit :: "io_event \<Rightarrow> idx_ds \<Rightarrow> idx_ds" where
  "emit e ds = ds\<lparr>events := events ds @ [e]\<rparr>"

definition VSIFOpenL :: "idx_env \<Rightarrow> open_mode \<Rightarrow> idx_ds \<Rightarrow> idx_ds" where
  "VSIFOpenL env m ds =
     (let ok = open_result env (opens ds) in
      emit (Ev_Open m ok)
        (ds\<lparr>ifp_FP := (if ok then Some m else None), opens := Suc (opens ds)\<rparr>))"

definition CheckFileSize :: "idx_env \<Rightarrow> int \<Rightarrow> GDALAccess \<Rightarrow> idx_ds \<Rightarrow> bool \<times> idx_ds" where
  "CheckFileSize env sz acc ds =
     (let ok = check_result env (checks ds) in
      (ok, emit (Ev_CheckFileSize sz acc ok) (ds\<lparr>checks := Suc (checks ds)\<rparr>)))"

definition MRF_sleep_ms :: "nat \<Rightarrow> idx_ds \<Rightarrow> idx_ds" where
  "MRF_sleep_ms t ds = emit (Ev_Sleep t) ds"

definition CPLError :: "idx_error \<Rightarrow> idx_ds \<Rightarrow> idx_ds" where
  "CPLError e ds = emit (Ev_Error e) ds"

text \<open>
  The loop \<open>do { if (CheckFileSize(..)) return ifp.FP; MRF_sleep_ms(100); } while (--timeout)\<close>.
  The counter is a C \<open>int\<close>, modelled as a 32-bit word; the loop is left when the
  decremented counter is zero.  The boolean of the result says whether the size check
  succeeded (the function returns the handle) or the loop ran out (the time-out).
\<close>

function idx_wait :: "idx_env \<Rightarrow> int \<Rightarrow> 32 word \<Rightarrow> idx_ds \<Rightarrow> bool \<times> idx_ds" where
  "idx_wait env expected_size timeout ds =
     (case CheckFileSize env expected_size GA_ReadOnly ds of
        (ok, ds1) \<Rightarrow>
          if ok then (True, ds1)
          else (let ds2 = MRF_sleep_ms 100 ds1 in
                if timeout - 1 \<noteq> 0 then idx_wait env expected_size (timeout - 1) ds2
                else (False, ds2)))"
  by pat_completeness auto
termination
proof (relation "measure (\<lambda>(env, expected_size, timeout, ds). unat (timeout - 1))")
  show "wf (measure (\<lambda>(env, expected_size, timeout, ds). unat (timeout - 1)))"
    by simp
next
  fix env :: idx_env and expected_size :: int and timeout :: "32 word" and ds ds2 :: idx_ds
  define x where "x = timeout - 1"
  assume "timeout - 1 \<noteq> 0"
  then have "x \<noteq> 0"
    by (simp add: x_def)
  then have "unat (x - 1) < unat x"
    by (simp add: unat_minus_one unat_gt_0 word_gt_0)
  then show "((env, expected_size, timeout - 1, ds2), (env, expected_size, timeout, ds)) \<in>
      measure (\<lambda>(env, expected_size, timeout, ds). unat (timeout - 1))"
    by (simp add: x_def)
qed

declare idx_wait.simps [simp del]

text \<open>
  \<open>IdxFP\<close> in the order of the source: the open attempts (read or update mode, then
  creation, then creation after making the folders), the block entered with an open
  handle (growing the file, then the bounded wait of a caching dataset), and the tail
  that creates the cache index when nothing could be opened.
\<close>

definition idx_open_attempts :: "idx_env \<Rightarrow> idx_ds \<Rightarrow> idx_ds" where
  "idx_open_attempts env ds0 =
     (let writable = (eAccess ds0 = GA_Update \<or> \<not> source_empty ds0);
          mode = (if writable then Mode_rpb else Mode_rb);
          ds1 = ds0\<lparr>ifp_acc := (if writable then GF_Write else GF_Read)\<rparr>;
          ds2 = VSIFOpenL env mode ds1;
          create = (ifp_FP ds2 = None \<and> \<not> bCrystalized ds2 \<and> writable);
          mode = (if create then Mode_wpb else mode);
          ds3 = (if create then VSIFOpenL env mode ds2 else ds2)
      in if ifp_FP ds3 = None \<and> \<not> source_empty ds3
         then VSIFOpenL env mode (emit Ev_Mkdir ds3) else ds3)"

definition expected_size :: "idx_ds \<Rightarrow> int" where
  "expected_size ds = (if clonedSource ds then idxSize ds * 2 else idxSize ds)"

definition idx_opened :: "idx_env \<Rightarrow> idx_ds \<Rightarrow> open_mode option \<times> idx_ds" where
  "idx_opened env ds4 =
     (let (grown, ds5) =
            (if \<not> bCrystalized ds4 then CheckFileSize env (expected_size ds4) GA_Update ds4
             else (True, ds4))
      in
      if \<not> grown then (None, CPLError Err_CantExtendCacheIndex ds5)
      else if source_empty ds5 then (ifp_FP ds5, ds5)
      else (case idx_wait env (expected_size ds4) 5 ds5 of
              (True, ds6) \<Rightarrow> (ifp_FP ds6, ds6)
            | (False, ds6) \<Rightarrow> (None, CPLError Err_TimeoutClonedIndex ds6)))"

definition idx_create_cache :: "idx_env \<Rightarrow> idx_ds \<Rightarrow> open_mode option \<times> idx_ds" where
  "idx_create_cache env ds4 =
     (if source_empty ds4 then (None, CPLError Err_CantOpenIndex ds4)
      else
        let ds5 = VSIFOpenL env Mode_rb (ds4\<lparr>ifp_acc := GF_Read\<rparr>) in
        if ifp_FP ds5 \<noteq> None then (ifp_FP ds5, ds5)
        else
          let ds6 = VSIFOpenL env Mode_wb ds5 in
          if ifp_FP ds6 = None then (None, CPLError Err_CantCreateCacheIndex ds6)
          else
            let ds7 = (emit Ev_Close ds6)\<lparr>ifp_FP := None\<rparr>;
                (grown, ds8) = CheckFileSize env (expected_size ds4) GA_Update ds7
            in
            if \<not> grown then (None, CPLError Err_CantExtendCacheIndex ds8)
            else
              let ds9 = VSIFOpenL env Mode_rpb (ds8\<lparr>ifp_acc := GF_Write\<rparr>) in
              if ifp_FP ds9 = None then (None, CPLError Err_CantReopenCacheIndex ds9)
              else (ifp_FP ds9, ds9))"

definition IdxFP :: "idx_env \<Rightarrow> idx_ds \<Rightarrow> open_mode option \<times> idx_ds" where
  "IdxFP env ds0 =
     (if ifp_FP ds0 \<noteq> None then (ifp_FP ds0, ds0)
      else
        let ds4 = idx_open_attempts env ds0 in
        if ifp_FP ds4 \<noteq> None then idx_opened env ds4
        else idx_create_cache env ds4)"

text \<open>What is read off the trace: the events a call appended, the size checks of the
  wait loop (those made with \<open>GA_ReadOnly\<close>), the failed ones among them, and the sleeps.\<close>

definition new_events :: "idx_ds \<Rightarrow> idx_ds \<Rightarrow> io_event list" where
  "new_events ds ds' = drop (length (events ds)) (events ds')"

fun is_wait_check :: "io_event \<Rightarrow> bool" where
  "is_wait_check (Ev_CheckFileSize sz GA_ReadOnly ok) = True"
| "is_wait_check e = False"

fun is_failed_wait_check :: "io_event \<Rightarrow> bool" where
  "is_failed_wait_check (Ev_CheckFileSize sz GA_ReadOnly ok) = (\<not> ok)"
| "is_failed_wait_check e = False"

fun is_sleep :: "io_event \<Rightarrow> bool" where
  "is_sleep (Ev_Sleep t) = True"
| "is_sleep e = False"

text \<open>Every failed size check of the wait loop is directly followed by a sleep of 100 ms.\<close>

fun sleeps_after_failed_checks :: "io_event list \<Rightarrow> bool" where
  "sleeps_after_failed_checks [] = True"
| "sleeps_after_failed_checks (Ev_CheckFileSize sz GA_ReadOnly False # es) =
     (case es of Ev_Sleep t # es' \<Rightarrow> t = 100 \<and> sleeps_after_failed_checks es' | _ \<Rightarrow> False)"
| "sleeps_after_failed_checks (Ev_Sleep t # es) = False"
| "sleeps_after_failed_checks (e # es) = sleeps_after_failed_checks es"

definition quiet :: "io_event list \<Rightarrow> bool" where
  "quiet evs = (\<forall>e \<in> set evs. \<not> is_wait_check e \<and> \<not> is_sleep e)"

definition wait_trace :: "int \<Rightarrow> nat \<Rightarrow> bool \<Rightarrow> io_event list" where
  "wait_trace sz n ok =
     concat (replicate (n - 1) [Ev_CheckFileSize sz GA_ReadOnly False, Ev_Sleep 100]) @
     (if ok then [Ev_CheckFileSize sz GA_ReadOnly True]
      else [Ev_CheckFileSize sz GA_ReadOnly False, Ev_Sleep 100])"

text \<open>The shape of a trace that went through the wait loop: events that are neither
  checks of the loop nor sleeps, then the loop, then the time-out report if the loop ran out.\<close>

definition wait_shape :: "io_event list \<Rightarrow> bool \<Rightarrow> bool" where
  "wait_shape evs failed =
     (\<exists>pre sz n b. evs = pre @ wait_trace sz n b @ (if b then [] else [Ev_Error Err_TimeoutClonedIndex]) \<and>
         quiet pre \<and> 0 < n \<and> n \<le> 5 \<and> (\<not> b \<longrightarrow> n = 5 \<and> failed))"

section \<open>Index records and files\<close>

text \<open>
  A file is its bytes.  The file system may refuse to let a file grow beyond \<open>limit\<close>
  (a full disk, a quota): a write then stores only the bytes that fit and returns their
  number, which is how \<open>VSIFWriteL\<close> reports a failure.  A read returns the bytes that
  exist in the range asked for; reading past the end gives fewer bytes.
\<close>

type_synonym byte = "8 word"

record vfile =
  content :: "byte list"
  limit :: nat

definition read_at :: "vfile \<Rightarrow> nat \<Rightarrow> nat \<Rightarrow> byte list" where
  "read_at f pos n = take n (drop pos (content f))"

definition write_at :: "vfile \<Rightarrow> nat \<Rightarrow> byte list \<Rightarrow> vfile \<times> nat" where
  "write_at f pos bs =
     (let n = min (length bs) (limit f - pos) in
      if n = 0 then (f, 0)
      else (f\<lparr>content := take pos (content f @ replicate (pos - length (content f)) 0)
                            @ take n bs @ drop (pos + n) (content f)\<rparr>, n))"

text \<open>Memory: what a buffer holds after \<open>VSIFReadL\<close> stored the bytes \<open>rd\<close> at its start.\<close>

definition fill :: "byte list \<Rightarrow> byte list \<Rightarrow> byte list" where
  "fill buf rd = rd @ drop (length rd) buf"

text \<open>
  Modelled from the spec: the header that declares \<open>ILIdx\<close> and \<open>net64\<close> is not part of
  the sources.  The record is the 16-byte tuple \<open>{offset: uint64, size: uint64}\<close>, kept in
  the file in big-endian order.  The host is taken to be little-endian, so a field is
  loaded from memory lowest byte first and \<open>net64\<close> reverses the eight bytes of a value.
\<close>

record ILIdx =
  idx_offset :: "64 word"
  idx_size :: "64 word"

fun le_bytes :: "nat \<Rightarrow> nat \<Rightarrow> byte list" where
  "le_bytes 0 n = []"
| "le_bytes (Suc k) n = of_nat (n mod 256) # le_bytes k (n div 256)"

fun le_value :: "byte list \<Rightarrow> nat" where
  "le_value [] = 0"
| "le_value (b # bs) = unat b + 256 * le_value bs"

definition host_store64 :: "64 word \<Rightarrow> byte list" where
  "host_store64 w = le_bytes 8 (unat w)"

definition host_load64 :: "byte list \<Rightarrow> 64 word" where
  "host_load64 bs = of_nat (le_value bs)"

definition net64 :: "64 word \<Rightarrow> 64 word" where
  "net64 w = host_load64 (rev (host_store64 w))"

definition ILIdx_bytes :: "ILIdx \<Rightarrow> byte list" where
  "ILIdx_bytes t = host_store64 (idx_offset t) @ host_store64 (idx_size t)"

definition ILIdx_of_bytes :: "byte list \<Rightarrow> ILIdx" where
  "ILIdx_of_bytes bs =
     \<lparr>idx_offset = host_load64 (take 8 bs), idx_size = host_load64 (take 8 (drop 8 bs))\<rparr>"

definition zero_ILIdx :: ILIdx where
  "zero_ILIdx = \<lparr>idx_offset = 0, idx_size = 0\<rparr>"

text \<open>\<open>VSIFSeekL(f, pos); VSIFReadL(&tinfo, 1, sizeof(ILIdx), f)\<close> into a record that was
  initialised to \<open>{0, 0}\<close>, the number of bytes read being ignored.\<close>

definition read_ILIdx :: "vfile \<Rightarrow> nat \<Rightarrow> ILIdx" where
  "read_ILIdx f pos = ILIdx_of_bytes (fill (replicate 16 0) (read_at f pos 16))"

text \<open>The records of a block of bytes, and the bytes of a block of records.\<close>

fun records_of :: "byte list \<Rightarrow> ILIdx list" where
  "records_of bs =
     (if length bs < 16 then [] else ILIdx_of_bytes (take 16 bs) # records_of (drop 16 bs))"

declare records_of.simps [simp del]

definition bytes_of_records :: "ILIdx list \<Rightarrow> byte list" where
  "bytes_of_records ts = concat (map ILIdx_bytes ts)"

text \<open>Of the two enumerations, the values that the source names.\<close>

datatype CPLErr = CE_None | CE_Failure

datatype ILCompression = IL_PNG | IL_LERC | IL_NONE | IL_ERR_COMP

text \<open>
  The dataset as the tile functions see it: the version state, the two files with the
  outcome of \<open>IdxFP()\<close> and \<open>DataFP()\<close> (\<open>idx_open\<close>, \<open>dat_open\<close>: a handle or \<open>NULL\<close>),
  the index of the cloned source with the number of reads made on it, and \<open>junk\<close>, the
  bytes found in memory returned by \<open>CPLMalloc\<close>.  File positions and sizes are natural
  numbers.  \<open>idxSize\<close> and \<open>verCount\<close> are C integers, modelled by the integers; where a
  file position is made of them it is taken with \<open>nat\<close>, and what is proved about such a
  position assumes them not negative.
\<close>

record mrf_store = mrf_base +
  mp_safe :: bool
  idx_open :: bool
  dat_open :: bool
  idx :: vfile
  dat :: vfile
  src_idx :: "vfile option"
  src_reads :: nat
  pageSizeBytes :: int
  junk :: "nat \<Rightarrow> byte"

definition CPLMalloc :: "(nat \<Rightarrow> byte) \<Rightarrow> nat \<Rightarrow> byte list" where
  "CPLMalloc jk n = map jk [0..<n]"

subsection \<open>\<open>GDALMRFDataset::AddVersion\<close>\<close>

text \<open>The return values of the read and of the write are not looked at by the source, and
  the function returns \<open>CE_None\<close> on every path.\<close>

definition AddVersion :: "'a mrf_store_scheme \<Rightarrow> CPLErr \<times> 'a mrf_store_scheme" where
  "AddVersion ds =
     (let n = nat (idxSize ds);
          tbuff = fill (CPLMalloc (junk ds) n) (read_at (idx ds) 0 n);
          ds1 = ds\<lparr>verCount := verCount ds + 1\<rparr>;
          (f, written) = write_at (idx ds1) (nat (idxSize ds1 * verCount ds1)) tbuff
      in (CE_None, ds1\<lparr>idx := f\<rparr>))"

subsection \<open>\<open>GDALMRFDataset::WriteTile\<close>\<close>

text \<open>The argument \<open>buff\<close>: the value of the pointer (0 for \<open>NULL\<close>) and the bytes it
  points to.  Only the first \<open>size\<close> of them are read.  The argument \<open>size\<close> is written
  \<open>sz\<close> below, \<open>size\<close> being a constant of HOL.\<close>

record buffer =
  addr :: "64 word"
  mem :: "byte list"

text \<open>
  The \<open>do ... while (tbuff)\<close> loop that appends the payload.  Its state is the data file,
  the verify buffer \<open>tbuff\<close> (\<open>None\<close> for the null pointer), \<open>ret\<close> and \<open>tinfo.offset\<close>.
  The loop need not terminate, so the result is an option: \<open>None\<close> is a call that never
  returns.  The data file is open in append mode: every write goes to its end.  A call
  that enters the loop with the buffer which the version comparison has freed, \<open>mp_safe\<close>
  being on, reads into freed memory in the source and frees it a second time; here the
  buffer takes the bytes read, which is what the source does for as long as that memory
  is left alone.
\<close>

partial_function (option) write_loop ::
  "bool \<Rightarrow> (nat \<Rightarrow> byte) \<Rightarrow> byte list \<Rightarrow> nat \<Rightarrow>
   vfile \<times> byte list option \<times> CPLErr \<times> 64 word \<Rightarrow> (vfile \<times> CPLErr \<times> 64 word) option" where
  "write_loop mp jk payload sz st =
     (let d = fst st; tbuff = fst (snd st); ret = fst (snd (snd st));
          offset = length (content d);
          w = write_at d offset payload;
          d1 = fst w;
          ret1 = (if sz \<noteq> snd w then CE_Failure else ret);
          toff1 = net64 (of_nat offset);
          tbuff1 =
            (if mp then
               (let tb = (case tbuff of None \<Rightarrow> CPLMalloc jk sz | Some b \<Rightarrow> b);
                    tb1 = fill tb (read_at d1 offset sz)
                in if payload = take sz tb1 then None else Some tb1)
             else tbuff)
      in if tbuff1 \<noteq> None then write_loop mp jk payload sz (d1, tbuff1, ret1, toff1)
         else Some (d1, ret1, toff1))"

text \<open>
  The block guarded by \<open>hasVersions\<close>.  It decides whether the tile is new and whether a
  version has to be made first; the result is \<open>None\<close> when the function returns at
  \<open>if (!new_tile) return CE_None\<close>, and otherwise the dataset (after \<open>AddVersion\<close>, if it was
  called), the record read into \<open>tinfo\<close> and the pointer \<open>tbuff\<close>, which the source frees
  but does not reset.
\<close>

definition version_check ::
  "'a mrf_store_scheme \<Rightarrow> buffer \<Rightarrow> nat \<Rightarrow> nat \<Rightarrow>
   ('a mrf_store_scheme \<times> ILIdx \<times> byte list option) option" where
  "version_check ds buff infooffset sz =
     (let tinfo = read_ILIdx (idx ds) infooffset;
          new_version =
            (if verCount ds \<noteq> 0 then
               (let prevtinfo = read_ILIdx (idx ds) (infooffset + nat (verCount ds * idxSize ds))
                in idx_size tinfo \<noteq> idx_size prevtinfo \<or> idx_offset tinfo \<noteq> idx_offset prevtinfo)
             else True);
          same_size = (idx_size tinfo = net64 (of_nat sz));
          tbuff = (if same_size \<and> sz \<noteq> 0
                   then Some (fill (CPLMalloc (junk ds) sz) (read_at (dat ds) infooffset sz))
                   else None);
          new_tile =
            (if same_size then
               (if sz \<noteq> 0 then take sz (mem buff) \<noteq> take sz (the tbuff)
                else idx_offset tinfo \<noteq> net64 (addr buff))
             else True);
          new_version = (if \<not> same_size \<and> verCount ds = 0 \<and> idx_size tinfo = 0
                         then False else new_version)
      in if \<not> new_tile then None
         else Some (if new_version then snd (AddVersion ds) else ds, tinfo, tbuff))"

definition WriteTile ::
  "'a mrf_store_scheme \<Rightarrow> buffer \<Rightarrow> nat \<Rightarrow> nat \<Rightarrow> (CPLErr \<times> 'a mrf_store_scheme) option" where
  "WriteTile ds buff infooffset sz =
     (if \<not> idx_open ds \<or> \<not> dat_open ds then Some (CE_Failure, ds)
      else
        case (if hasVersions ds then version_check ds buff infooffset sz
              else Some (ds, zero_ILIdx, None)) of
          None \<Rightarrow> Some (CE_None, ds)
        | Some (ds1, tinfo0, tbuff) \<Rightarrow>
            (let tinfo1 = tinfo0\<lparr>idx_size := net64 (of_nat sz)\<rparr> in
             case (if sz \<noteq> 0
                   then write_loop (mp_safe ds1) (junk ds1) (take sz (mem buff)) sz
                          (dat ds1, tbuff, CE_None, idx_offset tinfo1)
                   else Some (dat ds1, CE_None, idx_offset tinfo1)) of
               None \<Rightarrow> None
             | Some (d, ret, toff) \<Rightarrow>
                 (let tinfo2 = tinfo1\<lparr>idx_offset := toff\<rparr>;
                      tinfo3 = (if addr buff \<noteq> 0 \<and> sz = 0
                                then tinfo2\<lparr>idx_offset := net64 (addr buff)\<rparr> else tinfo2);
                      (f, written) = write_at (idx ds1) infooffset (ILIdx_bytes tinfo3);
                      ret1 = (if written \<noteq> 16 then CE_Failure else ret)
                  in Some (ret1, ds1\<lparr>idx := f, dat := d\<rparr>))))"




subsection \<open>\<open>GDALMRFDataset::ReadTileIdx\<close>\<close>

text \<open>
  The function that computes \<open>IdxOffset(pos, img)\<close> is not part of the sources, so the
  model takes its value, \<open>ioff\<close>, in place of the position and the image; of the image it
  also takes the compression \<open>img.comp\<close>, written \<open>icomp\<close>.  Offsets are natural numbers (the source keeps them
  in a signed 64-bit integer and never makes them negative).  The two \<open>assert\<close>s end the run
  when they fail.  The function calls itself after it filled the block, so a run need not
  end: \<open>None\<close> is a call that never returns.
\<close>

datatype 'a run = Ret 'a | Abort

definition CPYSZ :: nat where
  "CPYSZ = 32768"

definition mark_checked :: "ILIdx \<Rightarrow> ILIdx" where
  "mark_checked t = (if idx_offset t = 0 \<and> idx_size t = 0 then t\<lparr>idx_offset := net64 1\<rparr> else t)"

partial_function (option) ReadTileIdx ::
  "'a mrf_store_scheme \<Rightarrow> ILIdx \<Rightarrow> nat \<Rightarrow> ILCompression \<Rightarrow> nat \<Rightarrow>
   (CPLErr \<times> ILIdx \<times> 'a mrf_store_scheme) run option" where
  "ReadTileIdx ds tinfo ioff icomp bias =
     (let offset = bias + ioff in
      if \<not> idx_open ds \<and> icomp = IL_NONE then
        Some (Ret (CE_None,
          \<lparr>idx_offset = of_nat offset * of_int (pageSizeBytes ds),
             idx_size = of_int (pageSizeBytes ds)\<rparr>, ds))
      else if \<not> idx_open ds then Some (Ret (CE_Failure, tinfo, ds))
      else
        let rd = read_at (idx ds) offset 16;
            raw = ILIdx_of_bytes (fill (ILIdx_bytes tinfo) rd)
        in
        if length rd \<noteq> 16 then Some (Ret (CE_Failure, raw, ds))
        else
          let tinfo1 = \<lparr>idx_offset = net64 (idx_offset raw), idx_size = net64 (idx_size raw)\<rparr> in
          if bias = 0 \<or> idx_size tinfo1 \<noteq> 0 \<or> idx_offset tinfo1 \<noteq> 0
          then Some (Ret (CE_None, tinfo1, ds))
          else if \<not> ioff < bias \<or> \<not> clonedSource ds then Some Abort
          else
            let boff = (ioff div CPYSZ) * CPYSZ;
                n = min CPYSZ (bias - boff) div 16
            in
            case src_idx ds of
              None \<Rightarrow> Some (Ret (CE_Failure, tinfo1, ds))
            | Some srcidx \<Rightarrow>
                let rdb = read_at srcidx boff (16 * n);
                    ds1 = ds\<lparr>src_reads := Suc (src_reads ds)\<rparr>
                in
                if length rdb div 16 \<noteq> n then Some (Ret (CE_Failure, tinfo1, ds1))
                else
                  let buf = map mark_checked (records_of rdb);
                      w = write_at (idx ds1) (bias + boff) (bytes_of_records buf);
                      ds2 = ds1\<lparr>idx := fst w\<rparr>
                  in
                  if snd w div 16 \<noteq> n then Some (Ret (CE_Failure, tinfo1, ds2))
                  else ReadTileIdx ds2 tinfo1 ioff icomp bias)"

section \<open>Geometry: versions and overviews\<close>

text \<open>
  \<open>ILSize\<close> and \<open>ILImage\<close> are declared in a header that is not part of the sources;
  the records have the fields that the two functions name (\<open>x\<close>, \<open>y\<close>, \<open>z\<close>, \<open>c\<close>, \<open>l\<close> of a
  size are written \<open>dim_x\<close> to \<open>dim_l\<close>, and \<open>size\<close> of an image \<open>img_size\<close>).  A band has
  its image and the images of its overview bands.  The C integers are modelled by the
  integers, without overflow.
\<close>

record ILSize =
  dim_x :: int
  dim_y :: int
  dim_z :: int
  dim_c :: int
  dim_l :: int

record ILImage =
  idxoffset :: int
  img_size :: ILSize
  pagesize :: ILSize
  pagecount :: ILSize

record band =
  img :: ILImage
  overviews :: "ILImage list"

record mrf_geom = mrf_base +
  zslice :: int
  current :: ILImage
  bands :: "band list"

subsection \<open>\<open>GDALMRFDataset::SetVersion\<close>\<close>

definition add_idxoffset :: "int \<Rightarrow> ILImage \<Rightarrow> ILImage" where
  "add_idxoffset d i = i\<lparr>idxoffset := idxoffset i + d\<rparr>"

definition SetVersion :: "mrf_geom \<Rightarrow> int \<Rightarrow> CPLErr \<times> mrf_geom" where
  "SetVersion ds version =
     (if \<not> hasVersions ds \<or> version > verCount ds then (CE_Failure, ds)
      else (CE_None,
        ds\<lparr>bands :=
             map (\<lambda>srcband.
                    srcband\<lparr>img := add_idxoffset (idxSize ds * verCount ds) (img srcband),
                            overviews := map (add_idxoffset (idxSize ds * verCount ds))
                                           (overviews srcband)\<rparr>)
               (bands ds),
           hasVersions := False\<rparr>))"

subsection \<open>\<open>GDALMRFDataset::AddOverviews\<close>\<close>

text \<open>
  Modelled from the spec: \<open>pcount\<close> is declared in a header that is not part of the
  sources.  The spec has the tile grid as the sizes ceil-divided by the tile sizes, and
  \<open>l\<close> as the total tile count of the level.
\<close>

definition pcount :: "int \<Rightarrow> int \<Rightarrow> int" where
  "pcount n sz = - ((- n) div sz)"

definition pcount_size :: "ILSize \<Rightarrow> ILSize \<Rightarrow> ILSize" where
  "pcount_size s psz =
     (let x = pcount (dim_x s) (dim_x psz);
          y = pcount (dim_y s) (dim_y psz);
          z = pcount (dim_z s) (dim_z psz);
          c = pcount (dim_c s) (dim_c psz)
      in \<lparr>dim_x = x, dim_y = y, dim_z = z, dim_c = c, dim_l = x * y * z * c\<rparr>)"

text \<open>
  The body of the \<open>while\<close> loop, on the local image \<open>img\<close>.  The loop also registers an
  overview band with each band that has none for the level; that goes through the band
  class, which is not part of the sources, and does not touch \<open>img\<close>, so it is left out.
  \<open>sizeof(ILIdx)\<close> is 16.
\<close>

definition overview_step :: "int \<Rightarrow> int \<Rightarrow> ILImage \<Rightarrow> ILImage" where
  "overview_step scale zs img0 =
     (let img1 = img0\<lparr>idxoffset := idxoffset img0 +
                   16 * dim_l (pagecount img0) div dim_z (img_size img0) * (dim_z (img_size img0) - zs)\<rparr>;
          size1 = (img_size img1)\<lparr>dim_x := pcount (dim_x (img_size img1)) scale,
                                  dim_y := pcount (dim_y (img_size img1)) scale,
                                  dim_l := dim_l (img_size img1) + 1\<rparr>;
          img2 = img1\<lparr>img_size := size1, pagecount := pcount_size size1 (pagesize img1)\<rparr>
      in img2\<lparr>idxoffset := idxoffset img2 +
                   16 * dim_l (pagecount img2) div dim_z (img_size img2) * zs\<rparr>)"

partial_function (option) overview_loop :: "int \<Rightarrow> int \<Rightarrow> ILImage \<Rightarrow> ILImage option" where
  "overview_loop scale zs i =
     (if 1 \<noteq> dim_x (pagecount i) * dim_y (pagecount i)
      then overview_loop scale zs (overview_step scale zs i)
      else Some i)"

definition AddOverviews :: "mrf_geom \<Rightarrow> int \<Rightarrow> int option" where
  "AddOverviews ds scale =
     (case overview_loop scale (zslice ds) (current ds) of
        None \<Rightarrow> None
      | Some i \<Rightarrow>
          Some (idxoffset i +
                16 * dim_l (pagecount i) div dim_z (img_size i) * (dim_z (img_size i) - zslice ds)))"

text \<open>
  The levels of the pyramid as the loop visits them: level \<open>k\<close> is the image after \<open>k\<close>
  turns.  \<open>tile_area\<close> is the number the loop tests.  The index region of a level is cut
  at the z-slice of the dataset: \<open>slice_skip\<close> is the part before the slice and
  \<open>level_bytes\<close> the part from the slice on, the two amounts the cursor is advanced by.
\<close>

definition level :: "int \<Rightarrow> int \<Rightarrow> ILImage \<Rightarrow> nat \<Rightarrow> ILImage" where
  "level scale zs i k = (overview_step scale zs ^^ k) i"

definition tile_area :: "ILImage \<Rightarrow> int" where
  "tile_area i = dim_x (pagecount i) * dim_y (pagecount i)"

definition level_bytes :: "int \<Rightarrow> ILImage \<Rightarrow> int" where
  "level_bytes zs i = 16 * dim_l (pagecount i) div dim_z (img_size i) * (dim_z (img_size i) - zs)"

definition slice_skip :: "int \<Rightarrow> ILImage \<Rightarrow> int" where
  "slice_skip zs i = 16 * dim_l (pagecount i) div dim_z (img_size i) * zs"

section \<open>The bounded wait of \<open>IdxFP\<close>\<close>

lemma word_pred_unat: "(x :: 32 word) \<noteq> 0 \<Longrightarrow> unat (x - 1) + 1 = unat x"
  by (simp add: unat_minus_one unat_gt_0 word_gt_0)

lemma wait_trace_Suc:
  "0 < n \<Longrightarrow> [Ev_CheckFileSize sz GA_ReadOnly False, Ev_Sleep 100] @ wait_trace sz n r = wait_trace sz (Suc n) r"
  by (cases n) (simp_all add: wait_trace_def)

lemma CheckFileSize_eq:
  "CheckFileSize env sz acc ds =
     (check_result env (checks ds),
      ds\<lparr>checks := Suc (checks ds),
         events := events ds @ [Ev_CheckFileSize sz acc (check_result env (checks ds))]\<rparr>)"
  by (simp add: CheckFileSize_def Let_def emit_def)

lemma idx_wait_ok:
  "check_result env (checks ds) \<Longrightarrow>
   idx_wait env sz t ds = (True, ds\<lparr>checks := checks ds + 1, events := events ds @ wait_trace sz 1 True\<rparr>)"
  by (subst idx_wait.simps) (simp add: CheckFileSize_eq wait_trace_def)

lemma idx_wait_last:
  "\<not> check_result env (checks ds) \<Longrightarrow> t - 1 = 0 \<Longrightarrow>
   idx_wait env sz t ds = (False, ds\<lparr>checks := checks ds + 1, events := events ds @ wait_trace sz 1 False\<rparr>)"
  by (subst idx_wait.simps) (simp add: CheckFileSize_eq wait_trace_def MRF_sleep_ms_def emit_def)

lemma idx_wait_again:
  "\<not> check_result env (checks ds) \<Longrightarrow> t - 1 \<noteq> 0 \<Longrightarrow>
   idx_wait env sz t ds =
     idx_wait env sz (t - 1)
       (ds\<lparr>checks := checks ds + 1,
          events := events ds @ [Ev_CheckFileSize sz GA_ReadOnly False, Ev_Sleep 100]\<rparr>)"
  by (subst idx_wait.simps) (simp add: CheckFileSize_eq MRF_sleep_ms_def emit_def)

lemma idx_wait_trace_aux:
  "unat (t - 1) = k \<Longrightarrow> idx_wait env sz t ds = (r, ds') \<Longrightarrow>
     \<exists>n. 0 < n \<and> n \<le> k + 1 \<and> (\<not> r \<longrightarrow> n = k + 1) \<and>
         ds' = ds\<lparr>checks := checks ds + n, events := events ds @ wait_trace sz n r\<rparr>"
proof (induction k arbitrary: t ds)
  case 0
  then have t: "t - 1 = 0"
    by (simp add: unat_eq_0)
  show ?case
  proof (cases "check_result env (checks ds)")
    case True
    from "0.prems"(2) have "r \<and> ds' = ds\<lparr>checks := checks ds + 1, events := events ds @ wait_trace sz 1 True\<rparr>"
      unfolding idx_wait_ok [OF True] by simp
    then have "0 < (1::nat) \<and> 1 \<le> (0::nat) + 1 \<and> (\<not> r \<longrightarrow> (1::nat) = 0 + 1) \<and>
         ds' = ds\<lparr>checks := checks ds + 1, events := events ds @ wait_trace sz 1 r\<rparr>"
      by simp
    then show ?thesis by (rule exI)
  next
    case False
    from "0.prems"(2) have "\<not> r \<and> ds' = ds\<lparr>checks := checks ds + 1, events := events ds @ wait_trace sz 1 False\<rparr>"
      unfolding idx_wait_last [OF False t] by simp
    then have "0 < (1::nat) \<and> 1 \<le> (0::nat) + 1 \<and> (\<not> r \<longrightarrow> (1::nat) = 0 + 1) \<and>
         ds' = ds\<lparr>checks := checks ds + 1, events := events ds @ wait_trace sz 1 r\<rparr>"
      by simp
    then show ?thesis by (rule exI)
  qed
next
  case (Suc k)
  then have t: "t - 1 \<noteq> 0"
    by auto
  show ?case
  proof (cases "check_result env (checks ds)")
    case True
    from Suc.prems(2) have "r \<and> ds' = ds\<lparr>checks := checks ds + 1, events := events ds @ wait_trace sz 1 True\<rparr>"
      unfolding idx_wait_ok [OF True] by simp
    then have "0 < (1::nat) \<and> 1 \<le> Suc k + 1 \<and> (\<not> r \<longrightarrow> (1::nat) = Suc k + 1) \<and>
         ds' = ds\<lparr>checks := checks ds + 1, events := events ds @ wait_trace sz 1 r\<rparr>"
      by simp
    then show ?thesis by (rule exI)
  next
    case False
    let ?ds2 = "ds\<lparr>checks := checks ds + 1,
          events := events ds @ [Ev_CheckFileSize sz GA_ReadOnly False, Ev_Sleep 100]\<rparr>"
    have k: "unat (t - 1 - 1) = k"
      using word_pred_unat [OF t] Suc.prems(1) by simp
    from Suc.prems(2) have "idx_wait env sz (t - 1) ?ds2 = (r, ds')"
      unfolding idx_wait_again [OF False t] .
    from Suc.IH [OF k this] obtain n where n: "0 < n \<and> n \<le> k + 1 \<and> (\<not> r \<longrightarrow> n = k + 1) \<and>
        ds' = ?ds2\<lparr>checks := checks ?ds2 + n, events := events ?ds2 @ wait_trace sz n r\<rparr>" ..
    from n have n1: "0 < n"
      by (rule conjunct1)
    from n have n2: "n \<le> k + 1"
      by (rule conjunct2 [THEN conjunct1])
    from n have n3: "\<not> r \<longrightarrow> n = k + 1"
      by (rule conjunct2 [THEN conjunct2, THEN conjunct1])
    from n have n4: "ds' = ?ds2\<lparr>checks := checks ?ds2 + n, events := events ?ds2 @ wait_trace sz n r\<rparr>"
      by (rule conjunct2 [THEN conjunct2, THEN conjunct2])
    have "0 < Suc n \<and> Suc n \<le> Suc k + 1 \<and> (\<not> r \<longrightarrow> Suc n = Suc k + 1) \<and>
         ds' = ds\<lparr>checks := checks ds + Suc n, events := events ds @ wait_trace sz (Suc n) r\<rparr>"
      using n1 n2 n3 unfolding n4 wait_trace_Suc [OF n1, symmetric]
      by simp
    then show ?thesis by (rule exI)
  qed
qed

lemma idx_wait_5:
  "idx_wait env sz 5 ds = (r, ds') \<Longrightarrow>
     \<exists>n. 0 < n \<and> n \<le> 5 \<and> (\<not> r \<longrightarrow> n = 5) \<and>
         ds' = ds\<lparr>checks := checks ds + n, events := events ds @ wait_trace sz n r\<rparr>"
  using idx_wait_trace_aux [of 5 4 env sz ds r ds'] by simp

lemma filter_concat_replicate:
  "filter P (concat (replicate k xs)) = concat (replicate k (filter P xs))"
  by (induction k) simp_all

lemma length_concat_replicate: "length (concat (replicate k xs)) = k * length xs"
  by (induction k) simp_all

lemma wait_trace_checks:
  "0 < n \<Longrightarrow> length (filter is_wait_check (wait_trace sz n r)) = n"
  by (cases n) (simp_all add: wait_trace_def filter_concat_replicate length_concat_replicate)

lemma wait_trace_failed:
  "0 < n \<Longrightarrow> length (filter is_failed_wait_check (wait_trace sz n r)) = (if r then n - 1 else n)"
  by (cases n) (simp_all add: wait_trace_def filter_concat_replicate length_concat_replicate)

lemma wait_trace_sleeps:
  "0 < n \<Longrightarrow> length (filter is_sleep (wait_trace sz n r)) = (if r then n - 1 else n)"
  by (cases n) (simp_all add: wait_trace_def filter_concat_replicate length_concat_replicate)

lemma wait_trace_sleep_100: "e \<in> set (wait_trace sz n r) \<Longrightarrow> is_sleep e \<Longrightarrow> e = Ev_Sleep 100"
  by (auto simp: wait_trace_def split: if_splits)

lemma sleeps_after_wait_trace:
  "sleeps_after_failed_checks (wait_trace sz n r @ es) = sleeps_after_failed_checks es"
proof -
  have "sleeps_after_failed_checks
          (concat (replicate k [Ev_CheckFileSize sz GA_ReadOnly False, Ev_Sleep 100]) @ es) =
        sleeps_after_failed_checks es" for k es
    by (induction k) simp_all
  then show ?thesis
    by (simp add: wait_trace_def)
qed

lemma quiet_simps [simp]:
  "quiet []"
  "quiet (Ev_Open m ok # es) = quiet es"
  "quiet (Ev_Mkdir # es) = quiet es"
  "quiet (Ev_Close # es) = quiet es"
  "quiet (Ev_Error e # es) = quiet es"
  "quiet (Ev_CheckFileSize sz GA_Update ok # es) = quiet es"
  "quiet (xs @ ys) = (quiet xs \<and> quiet ys)"
  by (auto simp: quiet_def)

lemma quiet_filters:
  "quiet evs \<Longrightarrow> filter is_wait_check evs = []"
  "quiet evs \<Longrightarrow> filter is_failed_wait_check evs = []"
  "quiet evs \<Longrightarrow> filter is_sleep evs = []"
proof -
  have "is_failed_wait_check e \<Longrightarrow> is_wait_check e" for e
    by (cases e rule: is_failed_wait_check.cases) simp_all
  then show "quiet evs \<Longrightarrow> filter is_failed_wait_check evs = []"
    by (auto simp: quiet_def filter_empty_conv)
qed (auto simp: quiet_def filter_empty_conv)

lemma quiet_sleeps_after: "quiet pre \<Longrightarrow> sleeps_after_failed_checks (pre @ es) = sleeps_after_failed_checks es"
proof (induction pre)
  case Nil
  then show ?case by simp
next
  case (Cons e pre)
  then have "\<not> is_wait_check e" "\<not> is_sleep e" "quiet pre"
    by (simp_all add: quiet_def)
  then show ?case
    using Cons.IH
  proof (cases e)
    case (Ev_CheckFileSize sz acc ok)
    with \<open>\<not> is_wait_check e\<close> have "acc = GA_Update"
      by (cases acc) simp_all
    with Ev_CheckFileSize \<open>quiet pre\<close> Cons.IH show ?thesis
      by simp
  qed simp_all
qed

lemma open_attempts_events:
  "\<exists>evs. events (idx_open_attempts env ds) = events ds @ evs \<and> quiet evs"
  by (simp add: idx_open_attempts_def Let_def VSIFOpenL_def emit_def)

lemma create_cache_events:
  "idx_create_cache env ds = (r, ds') \<Longrightarrow> \<exists>evs. events ds' = events ds @ evs \<and> quiet evs"
  by (simp add: idx_create_cache_def Let_def VSIFOpenL_def emit_def CPLError_def CheckFileSize_eq
      split: if_splits) fastforce+

lemma wait_shapeI:
  "evs = pre @ wait_trace sz n b @ (if b then [] else [Ev_Error Err_TimeoutClonedIndex]) \<Longrightarrow>
   quiet pre \<Longrightarrow> 0 < n \<Longrightarrow> n \<le> 5 \<Longrightarrow> (\<not> b \<longrightarrow> n = 5 \<and> failed) \<Longrightarrow> wait_shape evs failed"
  unfolding wait_shape_def by (intro exI conjI) assumption+

lemma wait_shape_prepend: "quiet pre \<Longrightarrow> wait_shape evs failed \<Longrightarrow> wait_shape (pre @ evs) failed"
  unfolding wait_shape_def
  apply (elim exE conjE)
  subgoal for pre' sz n b
    by (rule exI [of _ "pre @ pre'"], rule exI [of _ sz], rule exI [of _ n], rule exI [of _ b]) simp
  done

lemma opened_events:
  assumes "idx_opened env ds = (r, ds')"
  shows "\<exists>evs. events ds' = events ds @ evs \<and> (quiet evs \<or> wait_shape evs (r = None))"
proof -
  define grown where "grown = (bCrystalized ds \<or> check_result env (checks ds))"
  define pre where "pre = (if bCrystalized ds then [] else [Ev_CheckFileSize (expected_size ds) GA_Update grown])"
  define ds5 where "ds5 = (if bCrystalized ds then ds else ds\<lparr>checks := Suc (checks ds), events := events ds @ pre\<rparr>)"
  have g: "(if \<not> bCrystalized ds then CheckFileSize env (expected_size ds) GA_Update ds else (True, ds)) = (grown, ds5)"
    by (simp add: grown_def ds5_def pre_def CheckFileSize_eq)
  have ev5: "events ds5 = events ds @ pre" and q: "quiet pre" and se: "source_empty ds5 = source_empty ds"
    by (simp_all add: ds5_def pre_def)
  show ?thesis
  proof (cases "grown")
    case False
    with assms g have "ds' = CPLError Err_CantExtendCacheIndex ds5"
      by (simp add: idx_opened_def)
    then have "events ds' = events ds @ (pre @ [Ev_Error Err_CantExtendCacheIndex])"
      by (simp add: ev5 CPLError_def emit_def)
    moreover have "quiet (pre @ [Ev_Error Err_CantExtendCacheIndex])"
      using q by simp
    ultimately show ?thesis by (intro exI conjI disjI1)
  next
    case True
    show ?thesis
    proof (cases "source_empty ds")
      case se': True
      with assms g True se have "ds' = ds5"
        by (simp add: idx_opened_def)
      with ev5 q show ?thesis by (intro exI conjI disjI1) simp_all
    next
      case se': False
      obtain b ds6 where w: "idx_wait env (expected_size ds) 5 ds5 = (b, ds6)"
        by (rule prod.exhaust)
      from idx_wait_5 [OF w] obtain n where n: "0 < n \<and> n \<le> 5 \<and> (\<not> b \<longrightarrow> n = 5) \<and>
         ds6 = ds5\<lparr>checks := checks ds5 + n, events := events ds5 @ wait_trace (expected_size ds) n b\<rparr>" ..
      from n have n1: "0 < n" by (rule conjunct1)
      from n have n2: "n \<le> 5" by (rule conjunct2 [THEN conjunct1])
      from n have n3: "\<not> b \<longrightarrow> n = 5" by (rule conjunct2 [THEN conjunct2, THEN conjunct1])
      from n have n4: "ds6 = ds5\<lparr>checks := checks ds5 + n, events := events ds5 @ wait_trace (expected_size ds) n b\<rparr>"
        by (rule conjunct2 [THEN conjunct2, THEN conjunct2])
      have res: "r = (if b then ifp_FP ds6 else None)"
        "ds' = (if b then ds6 else CPLError Err_TimeoutClonedIndex ds6)"
        using assms g True se se' w by (cases b; simp add: idx_opened_def)+
      have "events ds' = events ds @ (pre @ wait_trace (expected_size ds) n b @
          (if b then [] else [Ev_Error Err_TimeoutClonedIndex]))"
        unfolding res n4 by (simp add: ev5 CPLError_def emit_def)
      moreover have "wait_shape (pre @ wait_trace (expected_size ds) n b @
          (if b then [] else [Ev_Error Err_TimeoutClonedIndex])) (r = None)"
        using q n1 n2 n3 res(1) by (intro wait_shapeI [OF refl]) simp_all
      ultimately show ?thesis by (intro exI conjI disjI2)
    qed
  qed
qed

lemma IdxFP_events:
  assumes "IdxFP env ds = (r, ds')"
  shows "\<exists>evs. events ds' = events ds @ evs \<and> (quiet evs \<or> wait_shape evs (r = None))"
proof (cases "ifp_FP ds = None")
  case False
  with assms have "ds' = ds"
    by (simp add: IdxFP_def)
  then have "events ds' = events ds @ []" "quiet []"
    by simp_all
  then show ?thesis by (intro exI conjI disjI1)
next
  case True
  let ?ds4 = "idx_open_attempts env ds"
  obtain pre where pre: "events ?ds4 = events ds @ pre \<and> quiet pre"
    using open_attempts_events [of env ds] ..
  then have p1: "events ?ds4 = events ds @ pre" and p2: "quiet pre"
    by (rule conjunct1, rule conjunct2)
  have "\<exists>evs. events ds' = events ?ds4 @ evs \<and> (quiet evs \<or> wait_shape evs (r = None))"
  proof (cases "ifp_FP ?ds4 = None")
    case False
    with assms True have "idx_opened env ?ds4 = (r, ds')"
      by (simp add: IdxFP_def Let_def)
    then show ?thesis by (rule opened_events)
  next
    case none: True
    with assms True have "idx_create_cache env ?ds4 = (r, ds')"
      by (simp add: IdxFP_def Let_def)
    from create_cache_events [OF this] obtain evs where "events ds' = events ?ds4 @ evs \<and> quiet evs" ..
    then have "events ds' = events ?ds4 @ evs \<and> (quiet evs \<or> wait_shape evs (r = None))"
      by simp
    then show ?thesis by (rule exI)
  qed
  then obtain evs where evs: "events ds' = events ?ds4 @ evs \<and> (quiet evs \<or> wait_shape evs (r = None))" ..
  then have e1: "events ds' = events ?ds4 @ evs" and e2: "quiet evs \<or> wait_shape evs (r = None)"
    by (rule conjunct1, rule conjunct2)
  have "events ds' = events ds @ (pre @ evs)"
    by (simp add: e1 p1)
  moreover have "quiet (pre @ evs) \<or> wait_shape (pre @ evs) (r = None)"
    using e2 p2 wait_shape_prepend [of pre evs "r = None"] by auto
  ultimately show ?thesis by (intro exI conjI)
qed

lemma wait_shape_props:
  assumes "wait_shape evs failed"
  shows "length (filter is_wait_check evs) \<le> 5"
    and "length (filter is_sleep evs) \<le> 5"
    and "\<forall>e \<in> set evs. is_sleep e \<longrightarrow> e = Ev_Sleep 100"
    and "sleeps_after_failed_checks evs"
    and "length (filter is_failed_wait_check evs) = 5 \<longrightarrow>
           failed \<and> last (xs @ evs) = Ev_Error Err_TimeoutClonedIndex"
proof -
  from assms obtain pre sz n b where
    *: "evs = pre @ wait_trace sz n b @ (if b then [] else [Ev_Error Err_TimeoutClonedIndex])"
      "quiet pre" "0 < n" "n \<le> 5" "\<not> b \<longrightarrow> n = 5 \<and> failed"
    unfolding wait_shape_def by (elim exE conjE)
  show "length (filter is_wait_check evs) \<le> 5"
    using * by (auto simp: quiet_filters wait_trace_checks)
  show "length (filter is_sleep evs) \<le> 5"
    using * by (auto simp: quiet_filters wait_trace_sleeps)
  show "\<forall>e \<in> set evs. is_sleep e \<longrightarrow> e = Ev_Sleep 100"
    using * by (auto simp: quiet_def dest: wait_trace_sleep_100)
  show "sleeps_after_failed_checks evs"
    using * by (simp add: quiet_sleeps_after sleeps_after_wait_trace)
  show "length (filter is_failed_wait_check evs) = 5 \<longrightarrow>
           failed \<and> last (xs @ evs) = Ev_Error Err_TimeoutClonedIndex"
    using * by (cases b) (auto simp: quiet_filters wait_trace_failed)
qed

lemma quiet_props:
  assumes "quiet evs"
  shows "length (filter is_wait_check evs) \<le> 5"
    and "length (filter is_sleep evs) \<le> 5"
    and "\<forall>e \<in> set evs. is_sleep e \<longrightarrow> e = Ev_Sleep 100"
    and "sleeps_after_failed_checks evs"
    and "length (filter is_failed_wait_check evs) = 5 \<longrightarrow>
           failed \<and> last (xs @ evs) = Ev_Error Err_TimeoutClonedIndex"
  using assms quiet_sleeps_after [of evs "[]"] by (simp_all add: quiet_filters) (simp add: quiet_def)

text \<open>
  Claim C9.  Whatever the file system answers, one call of \<open>IdxFP\<close> makes at most five
  size checks in its wait loop and sleeps at most five times, every sleep lasts 100 ms and
  every failed check of the loop is directly followed by one; and when five checks of the
  loop have failed the call returns the null handle, the last thing it did being the report
  of the time-out.  \<open>IdxFP\<close> is a total function, so the call always returns.
\<close>

theorem IdxFP_wait_bounded:
  assumes "IdxFP env ds = (r, ds')"
  shows "length (filter is_wait_check (new_events ds ds')) \<le> 5 \<and>
     length (filter is_sleep (new_events ds ds')) \<le> 5 \<and>
     (\<forall>e \<in> set (new_events ds ds'). is_sleep e \<longrightarrow> e = Ev_Sleep 100) \<and>
     sleeps_after_failed_checks (new_events ds ds') \<and>
     (length (filter is_failed_wait_check (new_events ds ds')) = 5 \<longrightarrow>
        r = None \<and> last (events ds') = Ev_Error Err_TimeoutClonedIndex)"
proof -
  from IdxFP_events [OF assms] obtain evs where
    "events ds' = events ds @ evs \<and> (quiet evs \<or> wait_shape evs (r = None))" ..
  then have e: "events ds' = events ds @ evs" and s: "quiet evs \<or> wait_shape evs (r = None)"
    by (rule conjunct1, rule conjunct2)
  have ne: "new_events ds ds' = evs"
    by (simp add: new_events_def e)
  from s show ?thesis
  proof
    assume "quiet evs"
    from quiet_props(1-4) [OF this] quiet_props(5) [OF this, where failed = "r = None" and xs = "events ds"]
    show ?thesis
      unfolding ne e by (intro conjI)
  next
    assume "wait_shape evs (r = None)"
    from wait_shape_props(1-4) [OF this] wait_shape_props(5) [OF this, where xs = "events ds"]
    show ?thesis
      unfolding ne e by (intro conjI)
  qed
qed

theorem IdxFP_wait_bounded_witness:
  "IdxFP \<lparr>open_result = (\<lambda>k. True), check_result = (\<lambda>k. False)\<rparr>
      \<lparr>idxSize = 64, clonedSource = True, hasVersions = False, verCount = 0, ifp_FP = None, ifp_acc = GF_Read, eAccess = GA_ReadOnly,
        source_empty = False, bCrystalized = True, opens = 0, checks = 0, events = []\<rparr> =
    (None,
      \<lparr>idxSize = 64, clonedSource = True, hasVersions = False, verCount = 0, ifp_FP = Some Mode_rpb, ifp_acc = GF_Write,
        eAccess = GA_ReadOnly, source_empty = False, bCrystalized = True, opens = 1, checks = 5,
        events = Ev_Open Mode_rpb True # wait_trace 128 5 False @ [Ev_Error Err_TimeoutClonedIndex]\<rparr>) \<and>
   length (filter is_failed_wait_check
     (Ev_Open Mode_rpb True # wait_trace 128 5 False @ [Ev_Error Err_TimeoutClonedIndex])) = 5 \<and>
   length (filter is_sleep
     (Ev_Open Mode_rpb True # wait_trace 128 5 False @ [Ev_Error Err_TimeoutClonedIndex])) \<le> 5"
proof -
  let ?env = "\<lparr>open_result = (\<lambda>k. True), check_result = (\<lambda>k. False)\<rparr>"
  let ?ds = "\<lparr>idxSize = 64, clonedSource = True, hasVersions = False, verCount = 0, ifp_FP = None, ifp_acc = GF_Read, eAccess = GA_ReadOnly,
        source_empty = False, bCrystalized = True, opens = 0, checks = 0, events = []\<rparr>"
  let ?evs = "Ev_Open Mode_rpb True # wait_trace 128 5 False @ [Ev_Error Err_TimeoutClonedIndex]"
  let ?ds' = "\<lparr>idxSize = 64, clonedSource = True, hasVersions = False, verCount = 0, ifp_FP = Some Mode_rpb, ifp_acc = GF_Write,
        eAccess = GA_ReadOnly, source_empty = False, bCrystalized = True, opens = 1, checks = 5, events = ?evs\<rparr>"
  have w: "idx_wait ?env sz 5 ds =
     (False, ds\<lparr>checks := checks ds + 5, events := events ds @ wait_trace sz 5 False\<rparr>)" for sz ds
    apply (subst idx_wait.simps, simp add: CheckFileSize_eq MRF_sleep_ms_def emit_def)+
    apply (simp add: wait_trace_def eval_nat_numeral)
    done
  have run: "IdxFP ?env ?ds = (None, ?ds')"
    by (simp add: IdxFP_def idx_open_attempts_def idx_opened_def expected_size_def Let_def
        VSIFOpenL_def emit_def CPLError_def w)
  have f: "length (filter is_failed_wait_check ?evs) = 5"
    by (simp add: wait_trace_failed)
  from IdxFP_wait_bounded [OF run] have "length (filter is_sleep (new_events ?ds ?ds')) \<le> 5"
    by (rule conjunct2 [THEN conjunct1])
  then have "length (filter is_sleep ?evs) \<le> 5"
    by (simp add: new_events_def)
  with run f show ?thesis
    by (intro conjI)
qed

section \<open>Bytes, fields and records\<close>

lemma le_bytes_numeral:
  "le_bytes (numeral k) n = of_nat (n mod 256) # le_bytes (pred_numeral k) (n div 256)"
  unfolding numeral_eq_Suc [of k] by (rule le_bytes.simps)

lemma length_le_bytes [simp]: "length (le_bytes k n) = k"
  by (induction k arbitrary: n) simp_all

lemma unat_byte_of_nat: "unat (of_nat (n mod 256) :: byte) = n mod 256"
  by (simp add: unat_of_nat)

lemma le_value_le_bytes: "le_value (le_bytes k n) = n mod 256 ^ k"
proof (induction k arbitrary: n)
  case 0
  then show ?case by simp
next
  case (Suc k)
  have "n mod (256 * 256 ^ k) = n mod 256 + 256 * (n div 256 mod 256 ^ k)"
    by (simp add: mod_mult2_eq)
  with Suc show ?case
    by (simp add: unat_byte_of_nat)
qed

lemma le_value_less: "le_value bs < 256 ^ length bs"
proof (induction bs)
  case Nil
  then show ?case by simp
next
  case (Cons b bs)
  have "unat b < 256"
    using unsigned_less [of b] by simp
  with Cons show ?case
    by simp
qed

lemma le_bytes_le_value: "length bs = k \<Longrightarrow> le_bytes k (le_value bs) = bs"
proof (induction bs arbitrary: k)
  case Nil
  then show ?case by simp
next
  case (Cons b bs)
  then obtain k' where k: "k = Suc k'" "length bs = k'"
    by (cases k) auto
  have b: "unat b < 256"
    using unsigned_less [of b] by simp
  then have "(unat b + 256 * le_value bs) mod 256 = unat b"
    "(unat b + 256 * le_value bs) div 256 = le_value bs"
    by simp_all
  with Cons.IH [OF k(2)] k show ?case
    by simp
qed

lemma length_host_store64 [simp]: "length (host_store64 w) = 8"
  by (simp add: host_store64_def)

lemma host_load_store [simp]: "host_load64 (host_store64 w) = w"
proof -
  have "unat w < 256 ^ 8"
    using unsigned_less [of w] by simp
  then show ?thesis
    by (simp add: host_load64_def host_store64_def le_value_le_bytes)
qed

lemma host_store_load: "length bs = 8 \<Longrightarrow> host_store64 (host_load64 bs) = bs"
proof -
  assume l: "length bs = 8"
  have "le_value bs < 2 ^ 64"
    using le_value_less [of bs] l by simp
  then have "unat (of_nat (le_value bs) :: 64 word) = le_value bs"
    by (simp add: unat_of_nat)
  then show ?thesis
    by (simp add: host_load64_def host_store64_def le_bytes_le_value l)
qed

lemma net64_net64 [simp]: "net64 (net64 w) = w"
  by (simp add: net64_def host_store_load)

lemma net64_0 [simp]: "net64 0 = 0"
  by (simp add: net64_def host_store64_def host_load64_def le_bytes_numeral)

lemma net64_eq_0 [simp]: "net64 w = 0 \<longleftrightarrow> w = 0"
  by (metis net64_net64 net64_0)

lemma net64_inj [simp]: "net64 v = net64 w \<longleftrightarrow> v = w"
  by (metis net64_net64)

lemma length_ILIdx_bytes [simp]: "length (ILIdx_bytes t) = 16"
  by (simp add: ILIdx_bytes_def)

lemma ILIdx_of_bytes_bytes [simp]: "ILIdx_of_bytes (ILIdx_bytes t) = t"
  by (simp add: ILIdx_of_bytes_def ILIdx_bytes_def)

lemma ILIdx_of_bytes_append [simp]: "ILIdx_of_bytes (ILIdx_bytes t @ bs) = t"
  by (simp add: ILIdx_of_bytes_def ILIdx_bytes_def)

lemma ILIdx_of_zeros [simp]: "ILIdx_of_bytes (replicate 16 0) = zero_ILIdx"
  by (simp add: ILIdx_of_bytes_def zero_ILIdx_def host_load64_def eval_nat_numeral)

section \<open>\<open>SetVersion\<close>\<close>

lemma SetVersion_rejects:
  "\<not> hasVersions ds \<or> version > verCount ds \<Longrightarrow> SetVersion ds version = (CE_Failure, ds)"
  by (simp add: SetVersion_def)

lemma SetVersion_accepts:
  "hasVersions ds \<Longrightarrow> version \<le> verCount ds \<Longrightarrow>
   SetVersion ds version =
     (CE_None,
      ds\<lparr>bands := map (\<lambda>b. b\<lparr>img := add_idxoffset (idxSize ds * verCount ds) (img b),
                              overviews := map (add_idxoffset (idxSize ds * verCount ds)) (overviews b)\<rparr>)
                     (bands ds),
         hasVersions := False\<rparr>)"
  by (simp add: SetVersion_def)

text \<open>
  Claim C8, at a failing input.  A dataset with two stored versions, a generation of 16
  bytes and one band with one overview, the band at index offset 0 and the overview at 8:
  \<open>SetVersion(1)\<close> succeeds and moves the two offsets by \<open>idxSize * verCount = 32\<close>, to 32 and
  40, where the claim has them move by \<open>1 * 16\<close>, to 16 and 24.  The offsets do not depend on
  the version asked for.
\<close>

theorem SetVersion_ignores_version:
  "SetVersion
     \<lparr>idxSize = 16, clonedSource = False, hasVersions = True, verCount = 2, zslice = 0,
      current = \<lparr>idxoffset = 0,
        img_size = \<lparr>dim_x = 512, dim_y = 512, dim_z = 1, dim_c = 1, dim_l = 0\<rparr>,
        pagesize = \<lparr>dim_x = 512, dim_y = 512, dim_z = 1, dim_c = 1, dim_l = 0\<rparr>,
        pagecount = \<lparr>dim_x = 1, dim_y = 1, dim_z = 1, dim_c = 1, dim_l = 1\<rparr>\<rparr>,
      bands = [\<lparr>img = \<lparr>idxoffset = 0,
          img_size = \<lparr>dim_x = 512, dim_y = 512, dim_z = 1, dim_c = 1, dim_l = 0\<rparr>,
          pagesize = \<lparr>dim_x = 512, dim_y = 512, dim_z = 1, dim_c = 1, dim_l = 0\<rparr>,
          pagecount = \<lparr>dim_x = 1, dim_y = 1, dim_z = 1, dim_c = 1, dim_l = 1\<rparr>\<rparr>,
        overviews = [\<lparr>idxoffset = 8,
          img_size = \<lparr>dim_x = 256, dim_y = 256, dim_z = 1, dim_c = 1, dim_l = 1\<rparr>,
          pagesize = \<lparr>dim_x = 512, dim_y = 512, dim_z = 1, dim_c = 1, dim_l = 0\<rparr>,
          pagecount = \<lparr>dim_x = 1, dim_y = 1, dim_z = 1, dim_c = 1, dim_l = 1\<rparr>\<rparr>]\<rparr>]\<rparr> 1 =
   (CE_None,
     \<lparr>idxSize = 16, clonedSource = False, hasVersions = False, verCount = 2, zslice = 0,
      current = \<lparr>idxoffset = 0,
        img_size = \<lparr>dim_x = 512, dim_y = 512, dim_z = 1, dim_c = 1, dim_l = 0\<rparr>,
        pagesize = \<lparr>dim_x = 512, dim_y = 512, dim_z = 1, dim_c = 1, dim_l = 0\<rparr>,
        pagecount = \<lparr>dim_x = 1, dim_y = 1, dim_z = 1, dim_c = 1, dim_l = 1\<rparr>\<rparr>,
      bands = [\<lparr>img = \<lparr>idxoffset = 32,
          img_size = \<lparr>dim_x = 512, dim_y = 512, dim_z = 1, dim_c = 1, dim_l = 0\<rparr>,
          pagesize = \<lparr>dim_x = 512, dim_y = 512, dim_z = 1, dim_c = 1, dim_l = 0\<rparr>,
          pagecount = \<lparr>dim_x = 1, dim_y = 1, dim_z = 1, dim_c = 1, dim_l = 1\<rparr>\<rparr>,
        overviews = [\<lparr>idxoffset = 40,
          img_size = \<lparr>dim_x = 256, dim_y = 256, dim_z = 1, dim_c = 1, dim_l = 1\<rparr>,
          pagesize = \<lparr>dim_x = 512, dim_y = 512, dim_z = 1, dim_c = 1, dim_l = 0\<rparr>,
          pagecount = \<lparr>dim_x = 1, dim_y = 1, dim_z = 1, dim_c = 1, dim_l = 1\<rparr>\<rparr>]\<rparr>]\<rparr>)"
  by (simp add: SetVersion_def add_idxoffset_def)

theorem SetVersion_ignores_version_witness:
  "fst (SetVersion
     \<lparr>idxSize = 16, clonedSource = False, hasVersions = True, verCount = 2, zslice = 0,
      current = \<lparr>idxoffset = 0,
        img_size = \<lparr>dim_x = 512, dim_y = 512, dim_z = 1, dim_c = 1, dim_l = 0\<rparr>,
        pagesize = \<lparr>dim_x = 512, dim_y = 512, dim_z = 1, dim_c = 1, dim_l = 0\<rparr>,
        pagecount = \<lparr>dim_x = 1, dim_y = 1, dim_z = 1, dim_c = 1, dim_l = 1\<rparr>\<rparr>,
      bands = [\<lparr>img = \<lparr>idxoffset = 0,
          img_size = \<lparr>dim_x = 512, dim_y = 512, dim_z = 1, dim_c = 1, dim_l = 0\<rparr>,
          pagesize = \<lparr>dim_x = 512, dim_y = 512, dim_z = 1, dim_c = 1, dim_l = 0\<rparr>,
          pagecount = \<lparr>dim_x = 1, dim_y = 1, dim_z = 1, dim_c = 1, dim_l = 1\<rparr>\<rparr>,
        overviews = [\<lparr>idxoffset = 8,
          img_size = \<lparr>dim_x = 256, dim_y = 256, dim_z = 1, dim_c = 1, dim_l = 1\<rparr>,
          pagesize = \<lparr>dim_x = 512, dim_y = 512, dim_z = 1, dim_c = 1, dim_l = 0\<rparr>,
          pagecount = \<lparr>dim_x = 1, dim_y = 1, dim_z = 1, dim_c = 1, dim_l = 1\<rparr>\<rparr>]\<rparr>]\<rparr> 1) = CE_None \<and>
   map (\<lambda>b. idxoffset (img b)) (bands (snd (SetVersion
     \<lparr>idxSize = 16, clonedSource = False, hasVersions = True, verCount = 2, zslice = 0,
      current = \<lparr>idxoffset = 0,
        img_size = \<lparr>dim_x = 512, dim_y = 512, dim_z = 1, dim_c = 1, dim_l = 0\<rparr>,
        pagesize = \<lparr>dim_x = 512, dim_y = 512, dim_z = 1, dim_c = 1, dim_l = 0\<rparr>,
        pagecount = \<lparr>dim_x = 1, dim_y = 1, dim_z = 1, dim_c = 1, dim_l = 1\<rparr>\<rparr>,
      bands = [\<lparr>img = \<lparr>idxoffset = 0,
          img_size = \<lparr>dim_x = 512, dim_y = 512, dim_z = 1, dim_c = 1, dim_l = 0\<rparr>,
          pagesize = \<lparr>dim_x = 512, dim_y = 512, dim_z = 1, dim_c = 1, dim_l = 0\<rparr>,
          pagecount = \<lparr>dim_x = 1, dim_y = 1, dim_z = 1, dim_c = 1, dim_l = 1\<rparr>\<rparr>,
        overviews = [\<lparr>idxoffset = 8,
          img_size = \<lparr>dim_x = 256, dim_y = 256, dim_z = 1, dim_c = 1, dim_l = 1\<rparr>,
          pagesize = \<lparr>dim_x = 512, dim_y = 512, dim_z = 1, dim_c = 1, dim_l = 0\<rparr>,
          pagecount = \<lparr>dim_x = 1, dim_y = 1, dim_z = 1, dim_c = 1, dim_l = 1\<rparr>\<rparr>]\<rparr>]\<rparr> 1))) = [32] \<and>
   map (\<lambda>b. map idxoffset (overviews b)) (bands (snd (SetVersion
     \<lparr>idxSize = 16, clonedSource = False, hasVersions = True, verCount = 2, zslice = 0,
      current = \<lparr>idxoffset = 0,
        img_size = \<lparr>dim_x = 512, dim_y = 512, dim_z = 1, dim_c = 1, dim_l = 0\<rparr>,
        pagesize = \<lparr>dim_x = 512, dim_y = 512, dim_z = 1, dim_c = 1, dim_l = 0\<rparr>,
        pagecount = \<lparr>dim_x = 1, dim_y = 1, dim_z = 1, dim_c = 1, dim_l = 1\<rparr>\<rparr>,
      bands = [\<lparr>img = \<lparr>idxoffset = 0,
          img_size = \<lparr>dim_x = 512, dim_y = 512, dim_z = 1, dim_c = 1, dim_l = 0\<rparr>,
          pagesize = \<lparr>dim_x = 512, dim_y = 512, dim_z = 1, dim_c = 1, dim_l = 0\<rparr>,
          pagecount = \<lparr>dim_x = 1, dim_y = 1, dim_z = 1, dim_c = 1, dim_l = 1\<rparr>\<rparr>,
        overviews = [\<lparr>idxoffset = 8,
          img_size = \<lparr>dim_x = 256, dim_y = 256, dim_z = 1, dim_c = 1, dim_l = 1\<rparr>,
          pagesize = \<lparr>dim_x = 512, dim_y = 512, dim_z = 1, dim_c = 1, dim_l = 0\<rparr>,
          pagecount = \<lparr>dim_x = 1, dim_y = 1, dim_z = 1, dim_c = 1, dim_l = 1\<rparr>\<rparr>]\<rparr>]\<rparr> 1))) = [[40]] \<and>
   [32] \<noteq> [0 + 1 * (16::int)]"
  by (simp add: SetVersion_ignores_version)

section \<open>\<open>ReadTileIdx\<close> without an index file\<close>

text \<open>
  Claim C10.  When the index file cannot be opened and the compression is \<open>IL_NONE\<close>,
  \<open>ReadTileIdx\<close> returns \<open>CE_None\<close> with a record made up from the position alone: its size
  is the page size in bytes and its offset is the linear offset \<open>bias + ioff\<close> times that
  size, in the 64-bit arithmetic of the record.  The dataset, with its files and the count
  of reads of the source index, is returned as it was, and nothing of the result depends on
  what the index file holds.
\<close>

theorem ReadTileIdx_synthesized:
  "\<not> idx_open ds \<Longrightarrow>
   ReadTileIdx ds tinfo ioff IL_NONE bias =
     Some (Ret (CE_None,
       \<lparr>idx_offset = of_nat (bias + ioff) * of_int (pageSizeBytes ds),
          idx_size = of_int (pageSizeBytes ds)\<rparr>, ds))"
  by (subst ReadTileIdx.simps) simp

theorem ReadTileIdx_synthesized_witness:
  "\<not> idx_open
      \<lparr>idxSize = 32, clonedSource = False, hasVersions = False, verCount = 0, mp_safe = False,
       idx_open = False, dat_open = True, idx = \<lparr>content = [], limit = 0\<rparr>,
       dat = \<lparr>content = [], limit = 0\<rparr>, src_idx = None, src_reads = 0,
       pageSizeBytes = 1024, junk = (\<lambda>i. 0)\<rparr> \<and>
   ReadTileIdx
      \<lparr>idxSize = 32, clonedSource = False, hasVersions = False, verCount = 0, mp_safe = False,
       idx_open = False, dat_open = True, idx = \<lparr>content = [], limit = 0\<rparr>,
       dat = \<lparr>content = [], limit = 0\<rparr>, src_idx = None, src_reads = 0,
       pageSizeBytes = 1024, junk = (\<lambda>i. 0)\<rparr>
      zero_ILIdx 16 IL_NONE 0 =
     Some (Ret (CE_None, \<lparr>idx_offset = 16384, idx_size = 1024\<rparr>,
      \<lparr>idxSize = 32, clonedSource = False, hasVersions = False, verCount = 0, mp_safe = False,
       idx_open = False, dat_open = True, idx = \<lparr>content = [], limit = 0\<rparr>,
       dat = \<lparr>content = [], limit = 0\<rparr>, src_idx = None, src_reads = 0,
       pageSizeBytes = 1024, junk = (\<lambda>i. 0)\<rparr>))"
  using ReadTileIdx_synthesized
    [of "\<lparr>idxSize = 32, clonedSource = False, hasVersions = False, verCount = 0, mp_safe = False,
       idx_open = False, dat_open = True, idx = \<lparr>content = [], limit = 0\<rparr>,
       dat = \<lparr>content = [], limit = 0\<rparr>, src_idx = None, src_reads = 0,
       pageSizeBytes = 1024, junk = (\<lambda>i. 0)\<rparr>" zero_ILIdx 16 0]
  by simp

section \<open>Reading and writing files\<close>

lemma length_read_at: "length (read_at f pos n) = min n (length (content f) - pos)"
  by (simp add: read_at_def)

lemma read_at_full: "pos + n \<le> length (content f) \<Longrightarrow> length (read_at f pos n) = n"
  by (simp add: read_at_def)

lemma fill_full [simp]: "length rd = length buf \<Longrightarrow> fill buf rd = rd"
  by (simp add: fill_def)

lemma fill_nothing [simp]: "fill buf [] = buf"
  by (simp add: fill_def)

lemma length_fill [simp]: "length rd \<le> length buf \<Longrightarrow> length (fill buf rd) = length buf"
  by (simp add: fill_def)

lemma length_CPLMalloc [simp]: "length (CPLMalloc jk n) = n"
  by (simp add: CPLMalloc_def)

lemma write_at_limit [simp]: "limit (fst (write_at f pos bs)) = limit f"
  by (simp add: write_at_def Let_def)

lemma write_at_count: "snd (write_at f pos bs) = min (length bs) (limit f - pos)"
  by (simp add: write_at_def Let_def)

lemma write_at_nothing [simp]: "write_at f pos [] = (f, 0)"
  by (simp add: write_at_def)

lemma write_at_fits:
  assumes "pos + length bs \<le> limit f" and "bs \<noteq> []"
  shows "write_at f pos bs =
    (f\<lparr>content := take pos (content f @ replicate (pos - length (content f)) 0) @ bs @
        drop (pos + length bs) (content f)\<rparr>, length bs)"
proof -
  from assms have "min (length bs) (limit f - pos) = length bs"
    by simp
  with assms(2) show ?thesis
    by (simp add: write_at_def Let_def)
qed

lemma padded_prefix_length:
  "length (take pos (xs @ replicate (pos - length xs) (0::byte))) = pos"
  by simp

lemma read_back:
  assumes "pos + length bs \<le> limit f"
  shows "read_at (fst (write_at f pos bs)) pos (length bs) = bs"
proof (cases "bs = []")
  case True
  then show ?thesis by (simp add: read_at_def)
next
  case False
  have "drop pos (take pos (content f @ replicate (pos - length (content f)) 0) @ bs @
      drop (pos + length bs) (content f)) = bs @ drop (pos + length bs) (content f)"
    using padded_prefix_length [of pos "content f"] by (metis append_eq_conv_conj)
  then show ?thesis
    by (simp add: write_at_fits [OF assms False] read_at_def)
qed

lemma write_at_below:
  assumes "pos + length bs \<le> limit f" and "p < pos" and "p < length (content f)"
  shows "content (fst (write_at f pos bs)) ! p = content f ! p"
proof (cases "bs = []")
  case True
  then show ?thesis by simp
next
  case False
  define pre where "pre = take pos (content f @ replicate (pos - length (content f)) 0)"
  have l: "length pre = pos"
    by (simp add: pre_def)
  from assms(2,3) have "pre ! p = content f ! p"
    by (simp add: pre_def nth_append)
  moreover have "(pre @ bs @ drop (pos + length bs) (content f)) ! p = pre ! p"
    using assms(2) l by (simp add: nth_append)
  moreover have "content (fst (write_at f pos bs)) = pre @ bs @ drop (pos + length bs) (content f)"
    unfolding write_at_fits [OF assms(1) False] pre_def by simp
  ultimately show ?thesis
    by (simp only:)
qed

lemma read_at_chunk:
  assumes "q + m \<le> length bs" and "pos + length bs \<le> limit f"
  shows "read_at (fst (write_at f pos bs)) (pos + q) m = take m (drop q bs)"
proof -
  have "read_at (fst (write_at f pos bs)) (pos + q) m =
        take m (drop q (read_at (fst (write_at f pos bs)) pos (length bs)))"
    using assms(1) by (simp add: read_at_def drop_take ac_simps)
  then show ?thesis
    by (simp add: read_back [OF assms(2)])
qed

section \<open>\<open>AddVersion\<close>\<close>

lemma AddVersion_eq:
  "AddVersion ds =
     (CE_None,
      ds\<lparr>verCount := verCount ds + 1,
         idx := fst (write_at (idx ds) (nat (idxSize ds * (verCount ds + 1)))
                  (fill (CPLMalloc (junk ds) (nat (idxSize ds)))
                     (read_at (idx ds) 0 (nat (idxSize ds)))))\<rparr>)"
  by (simp add: AddVersion_def Let_def split: prod.splits)

text \<open>
  Claim C4, as the code has it.  \<open>AddVersion\<close> returns \<open>CE_None\<close> and adds one to the version
  counter on every call: it looks at no result of its read or write, and no path aborts.
  When the index holds at least one whole generation and the file system lets the file
  reach the end of the new generation, the bytes written at \<open>idxSize * (verCount + 1)\<close> are
  the \<open>idxSize\<close> bytes found at offset 0, and no byte below that offset changes.
\<close>

theorem AddVersion_copies_current:
  "fst (AddVersion ds) = CE_None \<and>
   verCount (snd (AddVersion ds)) = verCount ds + 1 \<and>
   (0 \<le> verCount ds \<and> 0 < idxSize ds \<and>
    nat (idxSize ds) \<le> length (content (idx ds)) \<and>
    nat (idxSize ds * (verCount ds + 2)) \<le> limit (idx ds) \<longrightarrow>
      read_at (idx (snd (AddVersion ds))) (nat (idxSize ds * (verCount ds + 1))) (nat (idxSize ds)) =
        read_at (idx ds) 0 (nat (idxSize ds)) \<and>
      (\<forall>p. p < nat (idxSize ds * (verCount ds + 1)) \<and> p < length (content (idx ds)) \<longrightarrow>
         content (idx (snd (AddVersion ds))) ! p = content (idx ds) ! p))"
proof (intro conjI impI allI)
  show "fst (AddVersion ds) = CE_None"
    by (simp add: AddVersion_eq)
  show "verCount (snd (AddVersion ds)) = verCount ds + 1"
    by (simp add: AddVersion_eq)
next
  assume h: "0 \<le> verCount ds \<and> 0 < idxSize ds \<and>
    nat (idxSize ds) \<le> length (content (idx ds)) \<and>
    nat (idxSize ds * (verCount ds + 2)) \<le> limit (idx ds)"
  define n where "n = nat (idxSize ds)"
  define pos where "pos = nat (idxSize ds * (verCount ds + 1))"
  define cur where "cur = read_at (idx ds) 0 n"
  from h have len: "length cur = n"
    by (simp add: cur_def n_def read_at_def)
  then have tb: "fill (CPLMalloc (junk ds) n) cur = cur"
    by simp
  have "nat (idxSize ds * (verCount ds + 2)) = pos + n"
    using h by (simp add: pos_def n_def nat_add_distrib [symmetric] algebra_simps)
  with h len have fits: "pos + length cur \<le> limit (idx ds)"
    by simp
  have idx': "idx (snd (AddVersion ds)) = fst (write_at (idx ds) pos cur)"
    by (simp add: AddVersion_eq tb n_def [symmetric] pos_def [symmetric] cur_def [symmetric])
  show "read_at (idx (snd (AddVersion ds))) (nat (idxSize ds * (verCount ds + 1))) (nat (idxSize ds)) =
        read_at (idx ds) 0 (nat (idxSize ds))"
    using read_back [OF fits] len
    by (simp add: idx' pos_def [symmetric] n_def [symmetric] cur_def [symmetric])
  fix p
  assume "p < nat (idxSize ds * (verCount ds + 1)) \<and> p < length (content (idx ds))"
  then show "content (idx (snd (AddVersion ds))) ! p = content (idx ds) ! p"
    using write_at_below [OF fits, of p] by (simp add: idx' pos_def)
qed

theorem AddVersion_copies_current_witness:
  "AddVersion
     \<lparr>idxSize = 2, clonedSource = False, hasVersions = True, verCount = 0, mp_safe = False,
      idx_open = True, dat_open = True, idx = \<lparr>content = [7, 9], limit = 100\<rparr>,
      dat = \<lparr>content = [], limit = 100\<rparr>, src_idx = None, src_reads = 0,
      pageSizeBytes = 1, junk = (\<lambda>i. 0)\<rparr> =
   (CE_None,
     \<lparr>idxSize = 2, clonedSource = False, hasVersions = True, verCount = 1, mp_safe = False,
      idx_open = True, dat_open = True, idx = \<lparr>content = [7, 9, 7, 9], limit = 100\<rparr>,
      dat = \<lparr>content = [], limit = 100\<rparr>, src_idx = None, src_reads = 0,
      pageSizeBytes = 1, junk = (\<lambda>i. 0)\<rparr>) \<and>
   read_at \<lparr>content = [7, 9, 7, 9], limit = 100\<rparr> 2 2 = read_at \<lparr>content = [7, 9], limit = 100\<rparr> 0 2"
proof -
  let ?ds = "\<lparr>idxSize = 2, clonedSource = False, hasVersions = True, verCount = 0, mp_safe = False,
      idx_open = True, dat_open = True, idx = \<lparr>content = [7, 9], limit = 100\<rparr>,
      dat = \<lparr>content = [], limit = 100\<rparr>, src_idx = None, src_reads = 0,
      pageSizeBytes = 1, junk = (\<lambda>i. 0)\<rparr>"
  have run: "AddVersion ?ds =
   (CE_None,
     \<lparr>idxSize = 2, clonedSource = False, hasVersions = True, verCount = 1, mp_safe = False,
      idx_open = True, dat_open = True, idx = \<lparr>content = [7, 9, 7, 9], limit = 100\<rparr>,
      dat = \<lparr>content = [], limit = 100\<rparr>, src_idx = None, src_reads = 0,
      pageSizeBytes = 1, junk = (\<lambda>i. 0)\<rparr>)"
    by (simp add: AddVersion_eq read_at_def write_at_def fill_def CPLMalloc_def)
  from AddVersion_copies_current [of ?ds] show ?thesis
    unfolding run by simp
qed

text \<open>
  Claim C4 as stated fails where the write is cut short.  The index holds one generation
  of 16 bytes and the file system lets the file reach 24 bytes: the write of the copy
  stores 8 of its 16 bytes, and \<open>AddVersion\<close> still counts the version and returns \<open>CE_None\<close>,
  leaving half a generation behind.
\<close>

theorem AddVersion_partial_counterexample:
  "snd (write_at \<lparr>content = replicate 16 1, limit = 24\<rparr> 16 (replicate 16 1)) = 8 \<and>
   AddVersion
     \<lparr>idxSize = 16, clonedSource = False, hasVersions = True, verCount = 0, mp_safe = False,
      idx_open = True, dat_open = True, idx = \<lparr>content = replicate 16 1, limit = 24\<rparr>,
      dat = \<lparr>content = [], limit = 100\<rparr>, src_idx = None, src_reads = 0,
      pageSizeBytes = 1, junk = (\<lambda>i. 0)\<rparr> =
   (CE_None,
     \<lparr>idxSize = 16, clonedSource = False, hasVersions = True, verCount = 1, mp_safe = False,
      idx_open = True, dat_open = True, idx = \<lparr>content = replicate 24 1, limit = 24\<rparr>,
      dat = \<lparr>content = [], limit = 100\<rparr>, src_idx = None, src_reads = 0,
      pageSizeBytes = 1, junk = (\<lambda>i. 0)\<rparr>)"
  by (simp add: AddVersion_eq read_at_def write_at_def fill_def CPLMalloc_def
      replicate_add [symmetric])

section \<open>\<open>WriteTile\<close>\<close>

lemmas store_eval =
  read_at_def write_at_def fill_def CPLMalloc_def ILIdx_of_bytes_def ILIdx_bytes_def
  host_load64_def host_store64_def net64_def le_bytes_numeral read_ILIdx_def zero_ILIdx_def

text \<open>One turn of the loop is enough when there is no verify buffer and no read-back.\<close>

lemma write_loop_once:
  "write_loop False jk payload sz (d, None, ret, toff) =
     Some (fst (write_at d (length (content d)) payload),
           (if sz \<noteq> snd (write_at d (length (content d)) payload) then CE_Failure else ret),
           net64 (of_nat (length (content d))))"
  by (subst write_loop.simps) (simp add: Let_def)

text \<open>With the read-back, one turn is enough when the append was complete.\<close>

lemma write_loop_verified:
  assumes "length payload = sz" and "length (content d) + sz \<le> limit d"
    and "\<And>b. tbuff = Some b \<Longrightarrow> sz \<le> length b"
  shows "write_loop True jk payload sz (d, tbuff, ret, toff) =
     Some (fst (write_at d (length (content d)) payload), ret, net64 (of_nat (length (content d))))"
proof -
  let ?w = "write_at d (length (content d)) payload"
  from assms(1,2) have fits: "length (content d) + length payload \<le> limit d"
    by simp
  have rb: "read_at (fst ?w) (length (content d)) sz = payload"
    using read_back [OF fits] assms(1) by simp
  have cnt: "snd ?w = sz"
    using assms(1,2) by (simp add: write_at_count)
  have "take sz (fill tb payload) = payload" if "sz \<le> length tb" for tb
    using assms(1) by (simp add: fill_def)
  then have "take sz (fill (case tbuff of None \<Rightarrow> CPLMalloc jk sz | Some b \<Rightarrow> b) payload) = payload"
    using assms(3) by (cases tbuff) simp_all
  then show ?thesis
    by (subst write_loop.simps) (simp add: Let_def rb cnt)
qed

text \<open>Without the read-back nothing resets a verify buffer left by the version check: the
  loop appends for ever.\<close>

lemma write_loop_returns:
  "write_loop mp jk payload sz st = Some y \<Longrightarrow> mp \<or> fst (snd st) = None"
  apply (erule write_loop.raw_induct
      [where P = "\<lambda>mp jk payload sz st y. mp \<or> fst (snd st) = None", rotated])
  apply (simp add: Let_def split: if_splits)
   apply (metis fst_conv snd_conv option.distinct(1))+
  done

lemma write_loop_spins: "write_loop False jk payload sz (d, Some b, ret, toff) = None"
proof (cases "write_loop False jk payload sz (d, Some b, ret, toff)")
  case None
  then show ?thesis .
next
  case (Some y)
  from write_loop_returns [OF this] show ?thesis
    by simp
qed


lemma WriteTile_closed:
  "\<not> idx_open ds \<or> \<not> dat_open ds \<Longrightarrow> WriteTile ds buff infooffset sz = Some (CE_Failure, ds)"
  by (simp add: WriteTile_def)

lemma WriteTile_plain:
  assumes "idx_open ds" and "dat_open ds" and "\<not> hasVersions ds" and "\<not> mp_safe ds" and "sz \<noteq> 0"
  shows "WriteTile ds buff infooffset sz =
    Some (if snd (write_at (idx ds) infooffset
                (ILIdx_bytes \<lparr>idx_offset = net64 (of_nat (length (content (dat ds)))),
                              idx_size = net64 (of_nat sz)\<rparr>)) \<noteq> 16
          then CE_Failure
          else if sz \<noteq> snd (write_at (dat ds) (length (content (dat ds))) (take sz (mem buff)))
               then CE_Failure else CE_None,
          ds\<lparr>idx := fst (write_at (idx ds) infooffset
                (ILIdx_bytes \<lparr>idx_offset = net64 (of_nat (length (content (dat ds)))),
                              idx_size = net64 (of_nat sz)\<rparr>)),
             dat := fst (write_at (dat ds) (length (content (dat ds))) (take sz (mem buff)))\<rparr>)"
  using assms
  by (simp add: WriteTile_def write_loop_once zero_ILIdx_def Let_def split: prod.splits)






text \<open>
  Claim C2, at a failing input.  The index refers to a tile of one byte at data offset 0;
  the data file holds that byte and the file system lets it grow no further.  A call with
  a payload of two bytes appends nothing and returns \<open>CE_Failure\<close>, and has replaced
  the record by offset 1, size 2, a range the data file does not have.
\<close>

theorem WriteTile_failed_append:
  "WriteTile
     \<lparr>idxSize = 16, clonedSource = False, hasVersions = False, verCount = 0, mp_safe = False,
      idx_open = True, dat_open = True,
      idx = \<lparr>content = [0, 0, 0, 0, 0, 0, 0, 0, 0, 0, 0, 0, 0, 0, 0, 1], limit = 100\<rparr>,
      dat = \<lparr>content = [5], limit = 1\<rparr>, src_idx = None, src_reads = 0,
      pageSizeBytes = 1, junk = (\<lambda>i. 0)\<rparr>
     \<lparr>addr = 4096, mem = [7, 8]\<rparr> 0 2 =
   Some (CE_Failure,
     \<lparr>idxSize = 16, clonedSource = False, hasVersions = False, verCount = 0, mp_safe = False,
      idx_open = True, dat_open = True,
      idx = \<lparr>content = [0, 0, 0, 0, 0, 0, 0, 1, 0, 0, 0, 0, 0, 0, 0, 2], limit = 100\<rparr>,
      dat = \<lparr>content = [5], limit = 1\<rparr>, src_idx = None, src_reads = 0,
      pageSizeBytes = 1, junk = (\<lambda>i. 0)\<rparr>)"
  by (simp add: WriteTile_plain store_eval)

theorem WriteTile_failed_append_witness:
  "map_option fst (WriteTile
     \<lparr>idxSize = 16, clonedSource = False, hasVersions = False, verCount = 0, mp_safe = False,
      idx_open = True, dat_open = True,
      idx = \<lparr>content = [0, 0, 0, 0, 0, 0, 0, 0, 0, 0, 0, 0, 0, 0, 0, 1], limit = 100\<rparr>,
      dat = \<lparr>content = [5], limit = 1\<rparr>, src_idx = None, src_reads = 0,
      pageSizeBytes = 1, junk = (\<lambda>i. 0)\<rparr>
     \<lparr>addr = 4096, mem = [7, 8]\<rparr> 0 2) = Some CE_Failure \<and>
   map_option (\<lambda>r. content (idx (snd r))) (WriteTile
     \<lparr>idxSize = 16, clonedSource = False, hasVersions = False, verCount = 0, mp_safe = False,
      idx_open = True, dat_open = True,
      idx = \<lparr>content = [0, 0, 0, 0, 0, 0, 0, 0, 0, 0, 0, 0, 0, 0, 0, 1], limit = 100\<rparr>,
      dat = \<lparr>content = [5], limit = 1\<rparr>, src_idx = None, src_reads = 0,
      pageSizeBytes = 1, junk = (\<lambda>i. 0)\<rparr>
     \<lparr>addr = 4096, mem = [7, 8]\<rparr> 0 2) \<noteq>
     Some [0, 0, 0, 0, 0, 0, 0, 0, 0, 0, 0, 0, 0, 0, 0, 1]"
  unfolding WriteTile_failed_append by simp

text \<open>
  Claim C5, at a failing input.  On a dataset with versions the record is read into
  \<open>tinfo\<close> first and only its size is set anew, so an erase (null buffer, size 0) of a tile
  stored at offset 5 with size 3 writes back offset 5 with size 0: a record with a non-zero
  offset and size 0, which is how a marker looks, and not the all-zero record.
\<close>

theorem WriteTile_erase_keeps_offset:
  "WriteTile
     \<lparr>idxSize = 16, clonedSource = False, hasVersions = True, verCount = 0, mp_safe = False,
      idx_open = True, dat_open = True,
      idx = \<lparr>content = [0, 0, 0, 0, 0, 0, 0, 5, 0, 0, 0, 0, 0, 0, 0, 3], limit = 100\<rparr>,
      dat = \<lparr>content = [1, 2, 3, 4, 5, 6, 7, 8], limit = 100\<rparr>, src_idx = None, src_reads = 0,
      pageSizeBytes = 1, junk = (\<lambda>i. 0)\<rparr>
     \<lparr>addr = 0, mem = []\<rparr> 0 0 =
   Some (CE_None,
     \<lparr>idxSize = 16, clonedSource = False, hasVersions = True, verCount = 1, mp_safe = False,
      idx_open = True, dat_open = True,
      idx = \<lparr>content = [0, 0, 0, 0, 0, 0, 0, 5, 0, 0, 0, 0, 0, 0, 0, 0,
                         0, 0, 0, 0, 0, 0, 0, 5, 0, 0, 0, 0, 0, 0, 0, 3], limit = 100\<rparr>,
      dat = \<lparr>content = [1, 2, 3, 4, 5, 6, 7, 8], limit = 100\<rparr>, src_idx = None, src_reads = 0,
      pageSizeBytes = 1, junk = (\<lambda>i. 0)\<rparr>)"
  by (simp add: WriteTile_def version_check_def AddVersion_eq Let_def store_eval)

theorem WriteTile_erase_keeps_offset_witness:
  "map_option (\<lambda>r. read_ILIdx (idx (snd r)) 0) (WriteTile
     \<lparr>idxSize = 16, clonedSource = False, hasVersions = True, verCount = 0, mp_safe = False,
      idx_open = True, dat_open = True,
      idx = \<lparr>content = [0, 0, 0, 0, 0, 0, 0, 5, 0, 0, 0, 0, 0, 0, 0, 3], limit = 100\<rparr>,
      dat = \<lparr>content = [1, 2, 3, 4, 5, 6, 7, 8], limit = 100\<rparr>, src_idx = None, src_reads = 0,
      pageSizeBytes = 1, junk = (\<lambda>i. 0)\<rparr>
     \<lparr>addr = 0, mem = []\<rparr> 0 0) = Some \<lparr>idx_offset = net64 5, idx_size = 0\<rparr> \<and>
   \<lparr>idx_offset = net64 5, idx_size = 0\<rparr> \<noteq> zero_ILIdx"
  unfolding WriteTile_erase_keeps_offset by (simp add: store_eval)

text \<open>
  Claim C3, at a failing input.  Two tiles are stored, the second one (index offset 16) as
  the byte 3 at data offset 2.  Writing the byte 3 again at index offset 16 is compared
  with what the data file holds at offset 16, the index offset, where it holds nothing:
  the tile counts as new and a version is made, the version count going from 0 to 1.  The
  verify buffer of the comparison is not reset, so without the read-back the call then
  appends for ever and does not return.
\<close>

theorem WriteTile_same_payload_new_version:
  "read_at \<lparr>content = [1, 2, 3], limit = 1000\<rparr> 2 1 = take 1 [3] \<and>
   version_check
     \<lparr>idxSize = 32, clonedSource = False, hasVersions = True, verCount = 0, mp_safe = False,
      idx_open = True, dat_open = True,
      idx = \<lparr>content = [0, 0, 0, 0, 0, 0, 0, 0, 0, 0, 0, 0, 0, 0, 0, 2,
                         0, 0, 0, 0, 0, 0, 0, 2, 0, 0, 0, 0, 0, 0, 0, 1], limit = 1000\<rparr>,
      dat = \<lparr>content = [1, 2, 3], limit = 1000\<rparr>, src_idx = None, src_reads = 0,
      pageSizeBytes = 1, junk = (\<lambda>i. 0)\<rparr>
     \<lparr>addr = 4096, mem = [3]\<rparr> 16 1 =
   Some (
     \<lparr>idxSize = 32, clonedSource = False, hasVersions = True, verCount = 1, mp_safe = False,
      idx_open = True, dat_open = True,
      idx = \<lparr>content = [0, 0, 0, 0, 0, 0, 0, 0, 0, 0, 0, 0, 0, 0, 0, 2,
                         0, 0, 0, 0, 0, 0, 0, 2, 0, 0, 0, 0, 0, 0, 0, 1,
                         0, 0, 0, 0, 0, 0, 0, 0, 0, 0, 0, 0, 0, 0, 0, 2,
                         0, 0, 0, 0, 0, 0, 0, 2, 0, 0, 0, 0, 0, 0, 0, 1], limit = 1000\<rparr>,
      dat = \<lparr>content = [1, 2, 3], limit = 1000\<rparr>, src_idx = None, src_reads = 0,
      pageSizeBytes = 1, junk = (\<lambda>i. 0)\<rparr>,
     \<lparr>idx_offset = net64 2, idx_size = net64 1\<rparr>, Some [0]) \<and>
   WriteTile
     \<lparr>idxSize = 32, clonedSource = False, hasVersions = True, verCount = 0, mp_safe = False,
      idx_open = True, dat_open = True,
      idx = \<lparr>content = [0, 0, 0, 0, 0, 0, 0, 0, 0, 0, 0, 0, 0, 0, 0, 2,
                         0, 0, 0, 0, 0, 0, 0, 2, 0, 0, 0, 0, 0, 0, 0, 1], limit = 1000\<rparr>,
      dat = \<lparr>content = [1, 2, 3], limit = 1000\<rparr>, src_idx = None, src_reads = 0,
      pageSizeBytes = 1, junk = (\<lambda>i. 0)\<rparr>
     \<lparr>addr = 4096, mem = [3]\<rparr> 16 1 = None"
proof -
  let ?ds = "\<lparr>idxSize = 32, clonedSource = False, hasVersions = True, verCount = 0, mp_safe = False,
      idx_open = True, dat_open = True,
      idx = \<lparr>content = [0, 0, 0, 0, 0, 0, 0, 0, 0, 0, 0, 0, 0, 0, 0, 2,
                         0, 0, 0, 0, 0, 0, 0, 2, 0, 0, 0, 0, 0, 0, 0, 1], limit = 1000\<rparr>,
      dat = \<lparr>content = [1, 2, 3], limit = 1000\<rparr>, src_idx = None, src_reads = 0,
      pageSizeBytes = 1, junk = (\<lambda>i. 0)\<rparr>"
  have vc: "version_check ?ds \<lparr>addr = 4096, mem = [3]\<rparr> 16 1 =
   Some (
     \<lparr>idxSize = 32, clonedSource = False, hasVersions = True, verCount = 1, mp_safe = False,
      idx_open = True, dat_open = True,
      idx = \<lparr>content = [0, 0, 0, 0, 0, 0, 0, 0, 0, 0, 0, 0, 0, 0, 0, 2,
                         0, 0, 0, 0, 0, 0, 0, 2, 0, 0, 0, 0, 0, 0, 0, 1,
                         0, 0, 0, 0, 0, 0, 0, 0, 0, 0, 0, 0, 0, 0, 0, 2,
                         0, 0, 0, 0, 0, 0, 0, 2, 0, 0, 0, 0, 0, 0, 0, 1], limit = 1000\<rparr>,
      dat = \<lparr>content = [1, 2, 3], limit = 1000\<rparr>, src_idx = None, src_reads = 0,
      pageSizeBytes = 1, junk = (\<lambda>i. 0)\<rparr>,
     \<lparr>idx_offset = net64 2, idx_size = net64 1\<rparr>, Some [0])"
    by (simp add: version_check_def AddVersion_eq Let_def store_eval)
  have "WriteTile ?ds \<lparr>addr = 4096, mem = [3]\<rparr> 16 1 = None"
    unfolding WriteTile_def vc by (simp add: write_loop_spins)
  moreover have "read_at \<lparr>content = [1, 2, 3 :: byte], limit = 1000\<rparr> 2 1 = take 1 [3]"
    by (simp add: read_at_def)
  ultimately show ?thesis
    using vc by (intro conjI)
qed

theorem WriteTile_same_payload_new_version_witness:
  "map_option (\<lambda>r. verCount (fst r)) (version_check
     \<lparr>idxSize = 32, clonedSource = False, hasVersions = True, verCount = 0, mp_safe = False,
      idx_open = True, dat_open = True,
      idx = \<lparr>content = [0, 0, 0, 0, 0, 0, 0, 0, 0, 0, 0, 0, 0, 0, 0, 2,
                         0, 0, 0, 0, 0, 0, 0, 2, 0, 0, 0, 0, 0, 0, 0, 1], limit = 1000\<rparr>,
      dat = \<lparr>content = [1, 2, 3], limit = 1000\<rparr>, src_idx = None, src_reads = 0,
      pageSizeBytes = 1, junk = (\<lambda>i. 0)\<rparr>
     \<lparr>addr = 4096, mem = [3]\<rparr> 16 1) = Some 1"
  using WriteTile_same_payload_new_version [THEN conjunct2, THEN conjunct1] by simp

text \<open>
  What holds of the calls with size 0, on every dataset.  A marker write (non-null pointer)
  leaves the data file alone, and when it returns \<open>CE_None\<close> the record at the index offset
  has size 0 and the pointer, in net format, as its offset.  On a dataset without versions
  an erase (null pointer) that returns \<open>CE_None\<close> leaves the all-zero record.
\<close>

lemma read_written_ILIdx:
  assumes "snd (write_at f pos (ILIdx_bytes t)) = 16"
  shows "read_ILIdx (fst (write_at f pos (ILIdx_bytes t))) pos = t"
proof -
  from assms have "pos + length (ILIdx_bytes t) \<le> limit f"
    by (simp add: write_at_count min_def split: if_splits)
  from read_back [OF this] show ?thesis
    by (simp add: read_ILIdx_def)
qed

lemma version_check_dat:
  "version_check ds buff infooffset sz = Some (ds1, t, tb) \<Longrightarrow> dat ds1 = dat ds"
  by (auto simp: version_check_def Let_def AddVersion_eq split: if_splits)

lemma version_check_marker_skipped:
  assumes "version_check ds buff infooffset 0 = None"
  shows "read_ILIdx (idx ds) infooffset = \<lparr>idx_offset = net64 (addr buff), idx_size = 0\<rparr>"
proof -
  from assms have "idx_size (read_ILIdx (idx ds) infooffset) = 0"
    and "idx_offset (read_ILIdx (idx ds) infooffset) = net64 (addr buff)"
    by (simp_all add: version_check_def Let_def split: if_splits)
  then show ?thesis
    by (cases "read_ILIdx (idx ds) infooffset") simp
qed

lemma WriteTile_marker:
  assumes "addr buff \<noteq> 0" and "WriteTile ds buff infooffset 0 = Some (ret, ds')"
  shows "dat ds' = dat ds"
    and "ret = CE_None \<Longrightarrow>
         read_ILIdx (idx ds') infooffset = \<lparr>idx_offset = net64 (addr buff), idx_size = 0\<rparr>"
proof -
  let ?m = "\<lparr>idx_offset = net64 (addr buff), idx_size = 0\<rparr>"
  have w: "ret = (if snd (write_at (idx ds1) infooffset (ILIdx_bytes ?m)) \<noteq> 16 then CE_Failure else CE_None) \<and>
      ds' = ds1\<lparr>idx := fst (write_at (idx ds1) infooffset (ILIdx_bytes ?m)), dat := dat ds1\<rparr>"
    if "idx_open ds" "dat_open ds"
      and "(if hasVersions ds then version_check ds buff infooffset 0 else Some (ds, zero_ILIdx, None)) =
           Some (ds1, t, tb)" for ds1 t tb
    using assms that by (cases t) (auto simp: WriteTile_def Let_def split: prod.splits)
  have "dat ds' = dat ds \<and> (ret = CE_None \<longrightarrow> read_ILIdx (idx ds') infooffset = ?m)"
  proof (cases "idx_open ds \<and> dat_open ds")
    case False
    with assms(2) show ?thesis
      by (auto simp: WriteTile_def)
  next
    case op: True
    show ?thesis
    proof (cases "if hasVersions ds then version_check ds buff infooffset 0
                  else Some (ds, zero_ILIdx, None)")
      case None
      then have v: "hasVersions ds" "version_check ds buff infooffset 0 = None"
        by (simp_all split: if_splits)
      with assms(2) op have "ret = CE_None" "ds' = ds"
        by (simp_all add: WriteTile_def)
      with version_check_marker_skipped [OF v(2)] show ?thesis
        by simp
    next
      case (Some r)
      obtain ds1 t tb where r: "r = (ds1, t, tb)"
        by (cases r)
      from Some r have d: "dat ds1 = dat ds"
        by (auto simp: version_check_dat split: if_splits)
      from w [OF _ _ Some [unfolded r]] op d read_written_ILIdx [of "idx ds1" infooffset ?m]
      show ?thesis
        by (simp split: if_splits)
    qed
  qed
  then show "dat ds' = dat ds"
    and "ret = CE_None \<Longrightarrow> read_ILIdx (idx ds') infooffset = ?m"
    by simp_all
qed

lemma WriteTile_erase_plain:
  assumes "\<not> hasVersions ds" and "addr buff = 0"
    and "WriteTile ds buff infooffset 0 = Some (CE_None, ds')"
  shows "dat ds' = dat ds" and "read_ILIdx (idx ds') infooffset = zero_ILIdx"
proof -
  from assms(3) have op: "idx_open ds" "dat_open ds"
    by (auto simp: WriteTile_def split: if_splits)
  have z: "ILIdx_bytes zero_ILIdx = ILIdx_bytes (zero_ILIdx\<lparr>idx_size := net64 0\<rparr>)"
    by (simp add: zero_ILIdx_def)
  from assms op have "snd (write_at (idx ds) infooffset (ILIdx_bytes zero_ILIdx)) = 16 \<and>
      ds' = ds\<lparr>idx := fst (write_at (idx ds) infooffset (ILIdx_bytes zero_ILIdx)), dat := dat ds\<rparr>"
    by (simp add: WriteTile_def Let_def zero_ILIdx_def split: prod.splits if_splits)
  with read_written_ILIdx [of "idx ds" infooffset zero_ILIdx]
  show "dat ds' = dat ds" and "read_ILIdx (idx ds') infooffset = zero_ILIdx"
    by simp_all
qed

text \<open>
  The version check with a stored version: if the tile is new, a version is made exactly
  when the current record differs from the record of the latest version.
\<close>

lemma version_check_rule:
  assumes "verCount ds \<noteq> 0" and "version_check ds buff infooffset sz = Some (ds1, t, tb)"
  shows "verCount ds1 =
    (if read_ILIdx (idx ds) infooffset =
        read_ILIdx (idx ds) (infooffset + nat (verCount ds * idxSize ds))
     then verCount ds else verCount ds + 1)"
proof -
  let ?cur = "read_ILIdx (idx ds) infooffset"
  let ?prev = "read_ILIdx (idx ds) (infooffset + nat (verCount ds * idxSize ds))"
  from assms have "ds1 = (if idx_size ?cur \<noteq> idx_size ?prev \<or> idx_offset ?cur \<noteq> idx_offset ?prev
                 then snd (AddVersion ds) else ds)"
    by (auto simp: version_check_def Let_def split: if_splits)
  moreover have "(idx_size ?cur \<noteq> idx_size ?prev \<or> idx_offset ?cur \<noteq> idx_offset ?prev) = (?cur \<noteq> ?prev)"
    by (cases ?cur; cases ?prev) auto
  ultimately have "ds1 = (if ?cur \<noteq> ?prev then snd (AddVersion ds) else ds)"
    by (simp only:)
  then show ?thesis
    by (simp add: AddVersion_eq)
qed

section \<open>\<open>AddOverviews\<close>\<close>

lemma pcount_cases:
  "sz \<noteq> 0 \<Longrightarrow> pcount n sz = (if n mod sz = 0 then n div sz else n div sz + 1)"
  by (simp add: pcount_def zdiv_zminus1_eq_if)

lemma pcount_one: "0 < sz \<Longrightarrow> pcount 1 sz = 1"
proof -
  assume sz: "0 < sz"
  show ?thesis
  proof (cases "sz = 1")
    case True
    then show ?thesis by (simp add: pcount_cases)
  next
    case False
    with sz have "1 < sz"
      by simp
    then show ?thesis
      by (simp add: pcount_cases)
  qed
qed

lemma pcount_ge_one:
  assumes "0 < n" and "1 < scale"
  shows "1 \<le> pcount n scale"
proof (cases "n mod scale = 0")
  case True
  with assms have "scale \<le> n"
    by (simp add: zdvd_imp_le mod_eq_0_iff_dvd)
  with assms have "1 \<le> n div scale"
    using pos_imp_zdiv_pos_iff [of scale n] by simp
  with assms True show ?thesis
    by (simp add: pcount_cases)
next
  case False
  from assms have "0 \<le> n div scale"
    by (simp add: pos_imp_zdiv_nonneg_iff)
  with assms False show ?thesis
    by (simp add: pcount_cases)
qed

lemma pcount_less:
  assumes "1 < n" and "1 < scale"
  shows "pcount n scale < n"
proof -
  from assms have "n div scale \<le> n div 2"
    by (intro zdiv_mono2) simp_all
  then have le: "n div scale \<le> n div 2" .
  show ?thesis
  proof (cases "n mod scale = 0")
    case True
    with assms le show ?thesis
      by (simp add: pcount_cases)
  next
    case False
    show ?thesis
    proof (cases "n = 2")
      case True
      with False assms have "2 < scale"
        by (cases "scale = 2") simp_all
      with True have "n div scale = 0"
        by simp
      with False assms True show ?thesis
        by (simp add: pcount_cases)
    next
      case n: False
      with assms have "n div 2 + 1 < n"
        by simp
      with le False assms show ?thesis
        by (simp add: pcount_cases)
    qed
  qed
qed

text \<open>Ceil-dividing over and over by a scale above one brings a positive size down to one.\<close>

lemma shrink_bounds:
  assumes "0 < n" and "1 < scale"
  shows "1 \<le> ((\<lambda>m. pcount m scale) ^^ k) n \<and> ((\<lambda>m. pcount m scale) ^^ k) n \<le> max 1 (n - int k)"
proof (induction k)
  case 0
  with assms show ?case by simp
next
  case (Suc k)
  let ?m = "((\<lambda>m. pcount m scale) ^^ k) n"
  from Suc have m: "1 \<le> ?m" "?m \<le> max 1 (n - int k)"
    by simp_all
  have "1 \<le> pcount ?m scale"
    using m(1) assms(2) by (intro pcount_ge_one) simp_all
  moreover have "pcount ?m scale \<le> max 1 (n - int (Suc k))"
  proof (cases "?m = 1")
    case True
    with assms show ?thesis
      by (simp add: pcount_one)
  next
    case False
    with m(1) have "1 < ?m"
      by simp
    from pcount_less [OF this assms(2)] m(2) show ?thesis
      by simp
  qed
  ultimately show ?case
    by simp
qed

lemma shrink_to_one:
  assumes "0 < n" and "1 < scale" and "nat n \<le> k"
  shows "((\<lambda>m. pcount m scale) ^^ k) n = 1"
  using shrink_bounds [OF assms(1,2), of k] assms(1,3) by simp

text \<open>What one turn of the loop does to the fields.\<close>

lemma overview_step_fields:
  "img_size (overview_step scale zs i) =
     (img_size i)\<lparr>dim_x := pcount (dim_x (img_size i)) scale,
                  dim_y := pcount (dim_y (img_size i)) scale,
                  dim_l := dim_l (img_size i) + 1\<rparr>"
  "pagesize (overview_step scale zs i) = pagesize i"
  "pagecount (overview_step scale zs i) =
     pcount_size (img_size (overview_step scale zs i)) (pagesize i)"
  "idxoffset (overview_step scale zs i) =
     idxoffset i + level_bytes zs i + slice_skip zs (overview_step scale zs i)"
  by (simp_all add: overview_step_def Let_def level_bytes_def slice_skip_def)

lemma level_0 [simp]: "level scale zs i 0 = i"
  by (simp add: level_def)

lemma level_Suc: "level scale zs i (Suc k) = overview_step scale zs (level scale zs i k)"
  by (simp add: level_def)

lemma level_shift: "level scale zs (overview_step scale zs i) k = level scale zs i (Suc k)"
  by (simp add: level_def funpow_swap1)

lemma level_geometry:
  "dim_x (img_size (level scale zs i k)) = ((\<lambda>m. pcount m scale) ^^ k) (dim_x (img_size i)) \<and>
   dim_y (img_size (level scale zs i k)) = ((\<lambda>m. pcount m scale) ^^ k) (dim_y (img_size i)) \<and>
   dim_z (img_size (level scale zs i k)) = dim_z (img_size i) \<and>
   pagesize (level scale zs i k) = pagesize i \<and>
   (0 < k \<longrightarrow> pagecount (level scale zs i k) =
      pcount_size (img_size (level scale zs i k)) (pagesize i))"
proof (induction k)
  case 0
  then show ?case by simp
next
  case (Suc k)
  then show ?case
    by (simp add: level_Suc overview_step_fields)
qed

lemma level_idxoffset:
  "idxoffset (level scale zs i k) =
     idxoffset i + (\<Sum>j<k. level_bytes zs (level scale zs i j) + slice_skip zs (level scale zs i (Suc j)))"
  by (induction k) (simp_all add: level_Suc overview_step_fields)

text \<open>The loop returns the first level whose tile area is one.\<close>

lemma overview_loop_level:
  "(\<forall>k<L. tile_area (level scale zs i k) \<noteq> 1) \<Longrightarrow> tile_area (level scale zs i L) = 1 \<Longrightarrow>
   overview_loop scale zs i = Some (level scale zs i L)"
proof (induction L arbitrary: i)
  case 0
  then show ?case
    by (subst overview_loop.simps) (simp add: tile_area_def)
next
  case (Suc L)
  from Suc.prems(1) have "tile_area i \<noteq> 1"
    by (metis level_0 zero_less_Suc)
  then have "overview_loop scale zs i = overview_loop scale zs (overview_step scale zs i)"
    by (subst overview_loop.simps) (simp add: tile_area_def)
  moreover have "overview_loop scale zs (overview_step scale zs i) =
      Some (level scale zs (overview_step scale zs i) L)"
    using Suc.prems by (intro Suc.IH) (simp_all add: level_shift)
  ultimately show ?case
    by (simp add: level_shift)
qed

lemma area_one_reached:
  assumes "1 < scale" and "0 < dim_x (img_size i)" and "0 < dim_y (img_size i)"
    and "0 < dim_x (pagesize i)" and "0 < dim_y (pagesize i)"
  shows "\<exists>k. tile_area (level scale zs i k) = 1"
proof -
  define K where "K = Suc (max (nat (dim_x (img_size i))) (nat (dim_y (img_size i))))"
  have x: "dim_x (img_size (level scale zs i K)) = 1"
    using level_geometry [of scale zs i K] shrink_to_one [OF assms(2,1), of K]
    by (simp add: K_def)
  have y: "dim_y (img_size (level scale zs i K)) = 1"
    using level_geometry [of scale zs i K] shrink_to_one [OF assms(3,1), of K]
    by (simp add: K_def)
  have "pagecount (level scale zs i K) = pcount_size (img_size (level scale zs i K)) (pagesize i)"
    using level_geometry [of scale zs i K] by (simp add: K_def)
  then have "tile_area (level scale zs i K) = 1"
    using x y assms(4,5) by (simp add: tile_area_def pcount_size_def Let_def pcount_one)
  then show ?thesis ..
qed

lemma shifted_sum:
  "(\<Sum>j<L. a j + b (Suc j)) + a L + b 0 = (\<Sum>k\<le>L. a k + (b k :: int))"
  by (induction L) (simp_all add: algebra_simps)

lemma whole_level:
  assumes "dim_z (img_size i) dvd dim_l (pagecount i)"
  shows "level_bytes zs i + slice_skip zs i = 16 * dim_l (pagecount i)"
proof -
  let ?z = "dim_z (img_size i)"
  let ?q = "16 * dim_l (pagecount i) div ?z"
  from assms have "?z dvd 16 * dim_l (pagecount i)"
    by simp
  then have "?q * ?z = 16 * dim_l (pagecount i)"
    by simp
  moreover have "level_bytes zs i + slice_skip zs i = ?q * ?z"
    by (simp add: level_bytes_def slice_skip_def algebra_simps)
  ultimately show ?thesis
    by simp
qed

lemma AddOverviews_level:
  assumes "\<forall>k<L. tile_area (level scale (zslice ds) (current ds) k) \<noteq> 1"
    and "tile_area (level scale (zslice ds) (current ds) L) = 1"
  shows "AddOverviews ds scale =
    Some (idxoffset (current ds) +
      (\<Sum>j<L. level_bytes (zslice ds) (level scale (zslice ds) (current ds) j) +
               slice_skip (zslice ds) (level scale (zslice ds) (current ds) (Suc j))) +
      level_bytes (zslice ds) (level scale (zslice ds) (current ds) L))"
  using overview_loop_level [OF assms] level_idxoffset [of scale "zslice ds" "current ds" L]
  by (simp add: AddOverviews_def level_bytes_def)

text \<open>
  Claim C7.  For positive raster and tile sizes and a scale above one the loop of
  \<open>AddOverviews\<close> ends: there is a first level \<open>L\<close> whose tile area is one, every level
  before it has another area, and the function returns.  The sizes of level \<open>k\<close> are the
  sizes of the dataset ceil-divided \<open>k\<close> times by the scale, and its tile grid is their
  ceil-division by the tile sizes.  The value returned is the index offset of the dataset
  advanced, for every level, by the part of its index region from the z-slice on and, for
  every level after the first, by the part before the z-slice.  Where the z size divides
  the tile count of each level, that is: counted from the start of the generation (the
  index offset of the dataset less the part of level 0 before the z-slice), every level
  contributes its tile count times the 16 bytes of a record.
\<close>

theorem AddOverviews_returns_index_size:
  assumes "1 < scale"
    and "0 < dim_x (img_size (current ds))" and "0 < dim_y (img_size (current ds))"
    and "0 < dim_z (img_size (current ds))"
    and "0 < dim_x (pagesize (current ds))" and "0 < dim_y (pagesize (current ds))"
  shows "\<exists>L.
    (\<forall>k<L. tile_area (level scale (zslice ds) (current ds) k) \<noteq> 1) \<and>
    tile_area (level scale (zslice ds) (current ds) L) = 1 \<and>
    (\<forall>k\<le>L.
       dim_x (img_size (level scale (zslice ds) (current ds) k)) =
         ((\<lambda>m. pcount m scale) ^^ k) (dim_x (img_size (current ds))) \<and>
       dim_y (img_size (level scale (zslice ds) (current ds) k)) =
         ((\<lambda>m. pcount m scale) ^^ k) (dim_y (img_size (current ds))) \<and>
       (0 < k \<longrightarrow> pagecount (level scale (zslice ds) (current ds) k) =
          pcount_size (img_size (level scale (zslice ds) (current ds) k)) (pagesize (current ds)))) \<and>
    AddOverviews ds scale =
      Some (idxoffset (current ds) +
        (\<Sum>j<L. level_bytes (zslice ds) (level scale (zslice ds) (current ds) j) +
                 slice_skip (zslice ds) (level scale (zslice ds) (current ds) (Suc j))) +
        level_bytes (zslice ds) (level scale (zslice ds) (current ds) L)) \<and>
    ((\<forall>k\<le>L. dim_z (img_size (level scale (zslice ds) (current ds) k)) dvd
              dim_l (pagecount (level scale (zslice ds) (current ds) k))) \<longrightarrow>
       AddOverviews ds scale =
         Some (idxoffset (current ds) - slice_skip (zslice ds) (current ds) +
           (\<Sum>k\<le>L. 16 * dim_l (pagecount (level scale (zslice ds) (current ds) k)))))"
proof -
  let ?lv = "level scale (zslice ds) (current ds)"
  let ?zs = "zslice ds"
  define L where "L = (LEAST k. tile_area (?lv k) = 1)"
  from area_one_reached [OF assms(1,2,3,5,6)] have ex: "\<exists>k. tile_area (?lv k) = 1" .
  then have last: "tile_area (?lv L) = 1"
    unfolding L_def by (rule LeastI_ex)
  have before: "\<forall>k<L. tile_area (?lv k) \<noteq> 1"
    unfolding L_def using not_less_Least by blast
  note ret = AddOverviews_level [OF before last]
  have geo: "\<forall>k\<le>L.
       dim_x (img_size (?lv k)) = ((\<lambda>m. pcount m scale) ^^ k) (dim_x (img_size (current ds))) \<and>
       dim_y (img_size (?lv k)) = ((\<lambda>m. pcount m scale) ^^ k) (dim_y (img_size (current ds))) \<and>
       (0 < k \<longrightarrow> pagecount (?lv k) = pcount_size (img_size (?lv k)) (pagesize (current ds)))"
    using level_geometry [of scale ?zs "current ds"] by simp
  have whole: "AddOverviews ds scale =
         Some (idxoffset (current ds) - slice_skip ?zs (current ds) +
           (\<Sum>k\<le>L. 16 * dim_l (pagecount (?lv k))))"
    if d: "\<forall>k\<le>L. dim_z (img_size (?lv k)) dvd dim_l (pagecount (?lv k))"
  proof -
    have "(\<Sum>k\<le>L. 16 * dim_l (pagecount (?lv k))) =
          (\<Sum>k\<le>L. level_bytes ?zs (?lv k) + slice_skip ?zs (?lv k))"
      using d by (intro sum.cong refl) (simp add: whole_level)
    also have "\<dots> = (\<Sum>j<L. level_bytes ?zs (?lv j) + slice_skip ?zs (?lv (Suc j))) +
          level_bytes ?zs (?lv L) + slice_skip ?zs (?lv 0)"
      by (rule shifted_sum [symmetric])
    finally show ?thesis
      unfolding ret by simp
  qed
  from before last geo ret whole show ?thesis
    by (intro exI [of _ L] conjI impI)
qed

theorem AddOverviews_returns_index_size_witness:
  "(1::int) < 2 \<and>
   AddOverviews
     \<lparr>idxSize = 0, clonedSource = False, hasVersions = False, verCount = 0, zslice = 0,
      current = \<lparr>idxoffset = 0,
        img_size = \<lparr>dim_x = 1000, dim_y = 1000, dim_z = 1, dim_c = 1, dim_l = 0\<rparr>,
        pagesize = \<lparr>dim_x = 256, dim_y = 256, dim_z = 1, dim_c = 1, dim_l = 0\<rparr>,
        pagecount = \<lparr>dim_x = 4, dim_y = 4, dim_z = 1, dim_c = 1, dim_l = 16\<rparr>\<rparr>,
      bands = []\<rparr> 2 = Some 336 \<and>
   (\<exists>L. tile_area (level 2 0
      \<lparr>idxoffset = 0,
        img_size = \<lparr>dim_x = 1000, dim_y = 1000, dim_z = 1, dim_c = 1, dim_l = 0\<rparr>,
        pagesize = \<lparr>dim_x = 256, dim_y = 256, dim_z = 1, dim_c = 1, dim_l = 0\<rparr>,
        pagecount = \<lparr>dim_x = 4, dim_y = 4, dim_z = 1, dim_c = 1, dim_l = 16\<rparr>\<rparr> L) = 1)"
proof -
  let ?i = "\<lparr>idxoffset = 0,
        img_size = \<lparr>dim_x = 1000, dim_y = 1000, dim_z = 1, dim_c = 1, dim_l = 0\<rparr>,
        pagesize = \<lparr>dim_x = 256, dim_y = 256, dim_z = 1, dim_c = 1, dim_l = 0\<rparr>,
        pagecount = \<lparr>dim_x = 4, dim_y = 4, dim_z = 1, dim_c = 1, dim_l = 16\<rparr>\<rparr>"
  let ?ds = "\<lparr>idxSize = 0, clonedSource = False, hasVersions = False, verCount = 0, zslice = 0,
      current = ?i, bands = []\<rparr>"
  have run: "AddOverviews ?ds 2 = Some 336"
    by (simp add: AddOverviews_def overview_loop.simps overview_step_def pcount_size_def
        pcount_def Let_def)
  from AddOverviews_returns_index_size [of 2 ?ds]
  obtain L where "tile_area (level 2 0 ?i L) = 1"
    by auto
  then have "\<exists>L. tile_area (level 2 0 ?i L) = 1" ..
  with run show ?thesis
    by simp
qed

section \<open>\<open>ReadTileIdx\<close> on a cloned index\<close>

lemma records_of_short [simp]: "length bs < 16 \<Longrightarrow> records_of bs = []"
  by (subst records_of.simps) simp

lemma records_of_record [simp]: "records_of (ILIdx_bytes t @ bs) = t # records_of bs"
  by (subst records_of.simps) simp

lemma records_of_bytes [simp]: "records_of (bytes_of_records ts) = ts"
  by (induction ts) (simp_all add: bytes_of_records_def)

lemma length_bytes_of_records [simp]: "length (bytes_of_records ts) = 16 * length ts"
  by (induction ts) (simp_all add: bytes_of_records_def)

lemma length_records_of: "length (records_of bs) = length bs div 16"
proof (induction bs rule: records_of.induct)
  case (1 bs)
  show ?case
  proof (cases "length bs < 16")
    case True
    then show ?thesis by simp
  next
    case False
    then have "length bs div 16 = Suc ((length bs - 16) div 16)"
      by (simp add: le_div_geq)
    with False "1.IH" show ?thesis
      by (subst records_of.simps) simp
  qed
qed

lemma record_in_block:
  "k < length ts \<Longrightarrow> take 16 (drop (16 * k) (bytes_of_records ts)) = ILIdx_bytes (ts ! k)"
proof (induction ts arbitrary: k)
  case Nil
  then show ?case by simp
next
  case (Cons t ts)
  show ?case
  proof (cases k)
    case 0
    then show ?thesis
      by (simp add: bytes_of_records_def)
  next
    case (Suc j)
    with Cons.prems have "j < length ts"
      by simp
    from Cons.IH [OF this] Suc show ?thesis
      by (simp add: bytes_of_records_def)
  qed
qed

lemma net64_1_nonzero [simp]: "net64 1 \<noteq> 0"
  by simp

lemma mark_checked_nonzero: "idx_offset (mark_checked r) \<noteq> 0 \<or> idx_size (mark_checked r) \<noteq> 0"
  by (simp add: mark_checked_def)

lemma mark_checked_not_zero: "mark_checked r \<noteq> zero_ILIdx"
proof
  assume "mark_checked r = zero_ILIdx"
  then have "idx_offset (mark_checked r) = 0 \<and> idx_size (mark_checked r) = 0"
    by (simp add: zero_ILIdx_def)
  with mark_checked_nonzero [of r] show False
    by simp
qed

lemma mark_checked_cases:
  "mark_checked r = (if r = zero_ILIdx then \<lparr>idx_offset = net64 1, idx_size = 0\<rparr> else r)"
  by (cases r) (auto simp: mark_checked_def zero_ILIdx_def)

text \<open>A record that is not all-zero is returned as it is found, and nothing else happens.\<close>

lemma ReadTileIdx_resolved:
  assumes "idx_open ds" and "read_at (idx ds) (bias + ioff) 16 = ILIdx_bytes r"
    and "idx_offset r \<noteq> 0 \<or> idx_size r \<noteq> 0"
  shows "ReadTileIdx ds tinfo ioff icomp bias =
    Some (Ret (CE_None, \<lparr>idx_offset = net64 (idx_offset r), idx_size = net64 (idx_size r)\<rparr>, ds))"
proof -
  have "fill (ILIdx_bytes tinfo) (ILIdx_bytes r) = ILIdx_bytes r"
    by simp
  with assms show ?thesis
    by (subst ReadTileIdx.simps) (auto simp: Let_def)
qed

text \<open>The block of a position, in numbers.\<close>

lemma block_arith:
  fixes ioff bias :: nat
  assumes "16 dvd ioff" and "ioff + 16 \<le> bias"
  defines "boff \<equiv> ioff div CPYSZ * CPYSZ"
  defines "n \<equiv> min CPYSZ (bias - boff) div 16"
  shows "boff \<le> ioff" and "16 * ((ioff - boff) div 16) = ioff - boff"
    and "(ioff - boff) div 16 < n" and "ioff < bias" and "0 < n"
proof -
  show b: "boff \<le> ioff"
    by (simp add: boff_def)
  have m: "ioff - boff = ioff mod CPYSZ"
    by (simp add: boff_def minus_div_mult_eq_mod)
  have "16 dvd CPYSZ"
    by (simp add: CPYSZ_def)
  with assms(1) have d: "16 dvd ioff mod CPYSZ"
    by (simp add: dvd_mod)
  then show e: "16 * ((ioff - boff) div 16) = ioff - boff"
    by (simp add: m)
  from d obtain j where j: "ioff mod CPYSZ = 16 * j" ..
  have "ioff mod CPYSZ < CPYSZ"
    by (simp add: CPYSZ_def)
  then have "16 * j < CPYSZ"
    unfolding j .
  then have "16 * j + 16 \<le> 16 * 2048"
    by (simp add: CPYSZ_def)
  then have "ioff mod CPYSZ + 16 \<le> CPYSZ"
    unfolding j by (simp add: CPYSZ_def)
  moreover from assms(2) b have "ioff - boff + 16 \<le> bias - boff"
    by simp
  ultimately have "ioff - boff + 16 \<le> min CPYSZ (bias - boff)"
    by (simp add: m)
  then have "(ioff - boff + 16) div 16 \<le> n"
    unfolding n_def by (rule div_le_mono)
  then show k: "(ioff - boff) div 16 < n"
    by simp
  from assms(2) show "ioff < bias"
    by simp
  from k show "0 < n"
    by simp
qed

text \<open>
  Claim C6.  The position is a record of the cloned part of the local index (its offset
  \<open>ioff\<close> is a multiple of 16 and the record ends within \<open>bias\<close>), the local record is
  all-zero, the index of the source opens and holds the whole block, and the file system
  lets the local index take the block.  Then \<open>ReadTileIdx\<close> returns \<open>CE_None\<close> after one
  read of the source index.  Afterwards the block of the local index, which starts at
  \<open>bias\<close> plus the position rounded down to 32 KiB, holds record for record what the source
  holds, except that every all-zero record has its offset field set to \<open>net64(1)\<close>;
  no record of the block is all-zero any more; and a further call for any position of the
  same block returns \<open>CE_None\<close> with the dataset exactly as it was, the count of reads of
  the source index included.
\<close>

theorem ReadTileIdx_clone_block:
  assumes "idx_open ds" and "clonedSource ds" and "src_idx ds = Some srcidx"
    and "16 dvd ioff" and "ioff + 16 \<le> bias"
    and "read_at (idx ds) (bias + ioff) 16 = replicate 16 0"
    and "boff = ioff div CPYSZ * CPYSZ" and "n = min CPYSZ (bias - boff) div 16"
    and "boff + 16 * n \<le> length (content srcidx)"
    and "bias + boff + 16 * n \<le> limit (idx ds)"
  shows "\<exists>t ds'.
    ReadTileIdx ds tinfo ioff icomp bias = Some (Ret (CE_None, t, ds')) \<and>
    src_reads ds' = Suc (src_reads ds) \<and>
    length (records_of (read_at srcidx boff (16 * n))) = n \<and>
    records_of (read_at (idx ds') (bias + boff) (16 * n)) =
      map (\<lambda>r. if r = zero_ILIdx then \<lparr>idx_offset = net64 1, idx_size = 0\<rparr> else r)
        (records_of (read_at srcidx boff (16 * n))) \<and>
    (\<forall>r \<in> set (records_of (read_at (idx ds') (bias + boff) (16 * n))). r \<noteq> zero_ILIdx) \<and>
    (\<forall>ioff' tinfo'. 16 dvd ioff' \<and> ioff' + 16 \<le> bias \<and> ioff' div CPYSZ = ioff div CPYSZ \<longrightarrow>
       (\<exists>t'. ReadTileIdx ds' tinfo' ioff' icomp bias = Some (Ret (CE_None, t', ds'))))"
proof -
  note blk = block_arith [OF assms(4,5), folded assms(7), folded assms(8)]
  define rdb where "rdb = read_at srcidx boff (16 * n)"
  define buf where "buf = map mark_checked (records_of rdb)"
  define ds1 where "ds1 = ds\<lparr>src_reads := Suc (src_reads ds)\<rparr>"
  define ds2 where "ds2 = ds1\<lparr>idx := fst (write_at (idx ds1) (bias + boff) (bytes_of_records buf))\<rparr>"
  have lrdb: "length rdb = 16 * n"
    using assms(9) by (simp add: rdb_def read_at_def)
  then have lrec: "length (records_of rdb) = n"
    by (simp add: length_records_of)
  then have lbuf: "length buf = n"
    by (simp add: buf_def)
  have fits: "bias + boff + length (bytes_of_records buf) \<le> limit (idx ds1)"
    using assms(10) by (simp add: lbuf ds1_def)
  have written: "snd (write_at (idx ds1) (bias + boff) (bytes_of_records buf)) = 16 * n"
    using fits by (simp add: write_at_count lbuf)
  have block: "read_at (idx ds2) (bias + boff) (16 * n) = bytes_of_records buf"
    using read_back [OF fits] by (simp add: ds2_def lbuf)
  have open2: "idx_open ds2"
    using assms(1) by (simp add: ds2_def ds1_def)
  \<comment> \<open>any aligned position of the block finds its record resolved\<close>
  have resolved: "\<exists>t'. ReadTileIdx ds2 tinfo' ioff' icomp bias = Some (Ret (CE_None, t', ds2))"
    if a: "16 dvd ioff'" "ioff' + 16 \<le> bias" "ioff' div CPYSZ = ioff div CPYSZ" for ioff' tinfo'
  proof -
    have same: "ioff' div CPYSZ * CPYSZ = boff"
      by (simp add: a(3) assms(7))
    note blk' = block_arith [OF a(1,2), unfolded same, folded assms(8)]
    define k where "k = (ioff' - boff) div 16"
    have k: "k < length buf" "boff + 16 * k = ioff'"
      using blk'(1,2,3) by (simp_all add: k_def lbuf)
    have "16 * k + 16 \<le> length (bytes_of_records buf)"
      using k(1) by simp
    from read_at_chunk [OF this fits]
    have "read_at (idx ds2) (bias + ioff') 16 = ILIdx_bytes (buf ! k)"
      using k by (simp add: ds2_def record_in_block add.assoc)
    moreover have "idx_offset (buf ! k) \<noteq> 0 \<or> idx_size (buf ! k) \<noteq> 0"
      using k(1) lrec lbuf mark_checked_nonzero [of "records_of rdb ! k"] by (simp add: buf_def)
    ultimately show ?thesis
      using ReadTileIdx_resolved [OF open2] by blast
  qed
  \<comment> \<open>the first call fetches the block and calls itself\<close>
  have zero: "ILIdx_of_bytes (fill (ILIdx_bytes tinfo) (replicate 16 0)) = zero_ILIdx"
    by simp
  have first: "ReadTileIdx ds tinfo ioff icomp bias = ReadTileIdx ds2 zero_ILIdx ioff icomp bias"
    using assms(1,2,3,6) blk(4,5) lrdb written
    by (subst ReadTileIdx.simps)
      (simp add: Let_def zero zero_ILIdx_def assms(7) [symmetric] assms(8) [symmetric]
        rdb_def [symmetric] buf_def [symmetric] ds1_def [symmetric] ds2_def [symmetric])
  from resolved [OF assms(4,5) refl, of zero_ILIdx]
  obtain t where t: "ReadTileIdx ds2 zero_ILIdx ioff icomp bias = Some (Ret (CE_None, t, ds2))" ..
  have recs: "records_of (read_at (idx ds2) (bias + boff) (16 * n)) =
      map (\<lambda>r. if r = zero_ILIdx then \<lparr>idx_offset = net64 1, idx_size = 0\<rparr> else r) (records_of rdb)"
    by (simp add: block buf_def mark_checked_cases [abs_def])
  have nz: "\<forall>r \<in> set (records_of (read_at (idx ds2) (bias + boff) (16 * n))). r \<noteq> zero_ILIdx"
    by (auto simp: block buf_def mark_checked_not_zero)
  have "ReadTileIdx ds tinfo ioff icomp bias = Some (Ret (CE_None, t, ds2))"
    by (simp add: first t)
  moreover have "src_reads ds2 = Suc (src_reads ds)"
    by (simp add: ds2_def ds1_def)
  moreover note lrec [unfolded rdb_def] recs [unfolded rdb_def] nz
  moreover have "\<forall>ioff' tinfo'. 16 dvd ioff' \<and> ioff' + 16 \<le> bias \<and> ioff' div CPYSZ = ioff div CPYSZ \<longrightarrow>
       (\<exists>t'. ReadTileIdx ds2 tinfo' ioff' icomp bias = Some (Ret (CE_None, t', ds2)))"
    using resolved by blast
  ultimately show ?thesis
    by (intro exI [of _ t] exI [of _ ds2] conjI)
qed

theorem ReadTileIdx_clone_block_witness:
  "read_at \<lparr>content = replicate 64 0, limit = 64\<rparr> (32 + 16) 16 = replicate 16 0 \<and>
   (0::nat) = 16 div CPYSZ * CPYSZ \<and> (2::nat) = min CPYSZ (32 - 0) div 16 \<and>
   (\<exists>t ds'. ReadTileIdx
     \<lparr>idxSize = 32, clonedSource = True, hasVersions = False, verCount = 0, mp_safe = True,
      idx_open = True, dat_open = True, idx = \<lparr>content = replicate 64 0, limit = 64\<rparr>,
      dat = \<lparr>content = [], limit = 100\<rparr>,
      src_idx = Some \<lparr>content = [0, 0, 0, 0, 0, 0, 0, 5, 0, 0, 0, 0, 0, 0, 0, 3,
                                  0, 0, 0, 0, 0, 0, 0, 0, 0, 0, 0, 0, 0, 0, 0, 0], limit = 32\<rparr>,
      src_reads = 0, pageSizeBytes = 1, junk = (\<lambda>i. 0)\<rparr>
     zero_ILIdx 16 IL_PNG 32 = Some (Ret (CE_None, t, ds')) \<and>
     src_reads ds' = Suc 0 \<and>
     records_of (read_at (idx ds') (32 + 0) (16 * 2)) =
       [\<lparr>idx_offset = net64 5, idx_size = net64 3\<rparr>, \<lparr>idx_offset = net64 1, idx_size = 0\<rparr>])"
proof -
  let ?src = "\<lparr>content = [0, 0, 0, 0, 0, 0, 0, 5, 0, 0, 0, 0, 0, 0, 0, 3,
                           0, 0, 0, 0, 0, 0, 0, 0, 0, 0, 0, 0, 0, 0, 0, 0 :: byte], limit = 32\<rparr>"
  let ?ds = "\<lparr>idxSize = 32, clonedSource = True, hasVersions = False, verCount = 0, mp_safe = True,
      idx_open = True, dat_open = True, idx = \<lparr>content = replicate 64 0, limit = 64\<rparr>,
      dat = \<lparr>content = [], limit = 100\<rparr>, src_idx = Some ?src,
      src_reads = 0, pageSizeBytes = 1, junk = (\<lambda>i. 0)\<rparr>"
  have h6: "read_at \<lparr>content = replicate 64 0, limit = 64\<rparr> (32 + 16) 16 = replicate 16 (0 :: byte)"
    by (simp add: read_at_def)
  have h7: "(0::nat) = 16 div CPYSZ * CPYSZ" and h8: "(2::nat) = min CPYSZ (32 - 0) div 16"
    by (simp_all add: CPYSZ_def)
  have src: "records_of (read_at ?src 0 (16 * 2)) =
      [\<lparr>idx_offset = net64 5, idx_size = net64 3\<rparr>, zero_ILIdx]"
    by (simp add: records_of.simps [of "_ # _"] store_eval)
  have "\<exists>t ds'. ReadTileIdx ?ds zero_ILIdx 16 IL_PNG 32 = Some (Ret (CE_None, t, ds')) \<and>
    src_reads ds' = Suc (src_reads ?ds) \<and>
    length (records_of (read_at ?src 0 (16 * 2))) = 2 \<and>
    records_of (read_at (idx ds') (32 + 0) (16 * 2)) =
      map (\<lambda>r. if r = zero_ILIdx then \<lparr>idx_offset = net64 1, idx_size = 0\<rparr> else r)
        (records_of (read_at ?src 0 (16 * 2))) \<and>
    (\<forall>r \<in> set (records_of (read_at (idx ds') (32 + 0) (16 * 2))). r \<noteq> zero_ILIdx) \<and>
    (\<forall>ioff' tinfo'. 16 dvd ioff' \<and> ioff' + 16 \<le> 32 \<and> ioff' div CPYSZ = 16 div CPYSZ \<longrightarrow>
       (\<exists>t'. ReadTileIdx ds' tinfo' ioff' IL_PNG 32 = Some (Ret (CE_None, t', ds'))))"
    by (rule ReadTileIdx_clone_block [where ds = ?ds and srcidx = ?src, OF _ _ _ _ _ _ h7 h8])
      (simp_all add: read_at_def)
  then obtain t ds' where r: "ReadTileIdx ?ds zero_ILIdx 16 IL_PNG 32 = Some (Ret (CE_None, t, ds'))"
    and s: "src_reads ds' = Suc (src_reads ?ds)"
    and b: "records_of (read_at (idx ds') (32 + 0) (16 * 2)) =
      map (\<lambda>r. if r = zero_ILIdx then \<lparr>idx_offset = net64 1, idx_size = 0\<rparr> else r)
        (records_of (read_at ?src 0 (16 * 2)))"
    by (elim exE conjE)
  have n5: "\<lparr>idx_offset = net64 5, idx_size = net64 3\<rparr> \<noteq> zero_ILIdx"
    by (simp add: zero_ILIdx_def)
  from b have b': "records_of (read_at (idx ds') (32 + 0) (16 * 2)) =
       [\<lparr>idx_offset = net64 5, idx_size = net64 3\<rparr>, \<lparr>idx_offset = net64 1, idx_size = 0\<rparr>]"
    unfolding src using n5 by simp
  from s have s': "src_reads ds' = Suc 0"
    by simp
  from r s' b' have "\<exists>t ds'. ReadTileIdx ?ds zero_ILIdx 16 IL_PNG 32 = Some (Ret (CE_None, t, ds')) \<and>
     src_reads ds' = Suc 0 \<and>
     records_of (read_at (idx ds') (32 + 0) (16 * 2)) =
       [\<lparr>idx_offset = net64 5, idx_size = net64 3\<rparr>, \<lparr>idx_offset = net64 1, idx_size = 0\<rparr>]"
    by (intro exI conjI)
  with h6 h7 h8 show ?thesis
    by (intro conjI)
qed

end
